theory Spec2Isabelle
  imports Complex_Main
begin

section \<open>Strings, values and errors\<close>

text \<open>
  A Python \<open>str\<close> is a sequence of Unicode code points, so it is modelled as a list of
  natural numbers (the code points), not as a list of bytes. \<open>ascii\<close> embeds the ASCII
  literals of the source.
\<close>

type_synonym ustr = "nat list"

definition ascii :: "string \<Rightarrow> ustr" where
  "ascii s = map of_char s"

text \<open>
  The dynamically typed values that reach the functions below: \<open>None\<close>, booleans,
  integers, floats (a finite float is the real number it denotes; \<open>nan\<close> and the
  infinities are values of their own), strings, lists and dictionaries with string
  keys (in insertion order).
\<close>

datatype pyval =
    PNone
  | PBool bool
  | PInt int
  | PFloat real
  | PNaN
  | PInf
  | PStr ustr
  | PList "pyval list"
  | PDict "(ustr \<times> pyval) list"

text \<open>The exceptions the modelled code can raise; a provider's failure carries its message.\<close>

datatype error =
    ValueError
  | OverflowError
  | TypeError
  | KeyError
  | IndexError
  | StopIteration
  | OSError
  | ProviderError ustr

text \<open>
  What a run does to the outside world is a list of events, in order. An f-string is the
  list of its fragments: literal text, an interpolated string, an interpolated value, an
  interpolated exception.
\<close>

datatype frag = Lit string | Str ustr | Val pyval | Exc error

datatype event =
    Print "frag list"
  | LogWarning "frag list"
  | LogError "frag list"
  | MakeDirs ustr
  | WriteText ustr ustr
  | WriteJson ustr pyval
  | WriteCsv ustr "pyval list list"
  | CallVideosList ustr
  | CallGetTranscript ustr
  | CallSearchChannel ustr
  | CallChannelsList ustr
  | CallPlaylistItems ustr "ustr option"

section \<open>parse_time_format\<close>

text \<open>
  \<open>isinstance(seconds, (int, float))\<close> followed by \<open>int(seconds)\<close>: \<open>bool\<close> is a
  subclass of \<open>int\<close>; \<open>int\<close> of a float truncates towards zero, raises ValueError on
  \<open>nan\<close> and OverflowError on an infinity.
\<close>

fun int_of_seconds :: "pyval \<Rightarrow> error + int" where
  "int_of_seconds (PBool b) = Inr (if b then 1 else 0)"
| "int_of_seconds (PInt i) = Inr i"
| "int_of_seconds (PFloat r) = Inr (if 0 \<le> r then \<lfloor>r\<rfloor> else \<lceil>r\<rceil>)"
| "int_of_seconds PNaN = Inl ValueError"
| "int_of_seconds PInf = Inl OverflowError"
| "int_of_seconds _ = Inl ValueError"

text \<open>The decimal digits of a natural number, most significant first.\<close>

fun dec_digits :: "nat \<Rightarrow> ustr" where
  "dec_digits n = (if n < 10 then [48 + n] else dec_digits (n div 10) @ [48 + n mod 10])"

declare dec_digits.simps [simp del]

text \<open>
  The format specification \<open>02\<close> of an f-string on an integer: zero padding to a
  minimum width of two, the sign counted in the width.
\<close>

definition format_02 :: "int \<Rightarrow> ustr" where
  "format_02 n =
     (if n < 0 then 45 # dec_digits (nat (- n))
      else replicate (2 - length (dec_digits (nat n))) 48 @ dec_digits (nat n))"

definition parse_time_format :: "pyval \<Rightarrow> error + ustr" where
  "parse_time_format seconds =
     (case int_of_seconds seconds of
        Inl e \<Rightarrow> Inl e
      | Inr total_seconds \<Rightarrow>
          (let hours = total_seconds div 3600;
               remainder = total_seconds mod 3600;
               minutes = remainder div 60;
               secs = remainder mod 60
           in Inr (if hours \<noteq> 0
                   then format_02 hours @ [58] @ format_02 minutes @ [58] @ format_02 secs
                   else format_02 minutes @ [58] @ format_02 secs)))"

text \<open>The number a value denotes as a count of seconds, when it is a finite number.\<close>

fun seconds_value :: "pyval \<Rightarrow> real option" where
  "seconds_value (PBool b) = Some (if b then 1 else 0)"
| "seconds_value (PInt i) = Some (of_int i)"
| "seconds_value (PFloat r) = Some r"
| "seconds_value _ = None"

text \<open>The two display forms, as the specification writes them: two digits per field.\<close>

definition is_digit :: "nat \<Rightarrow> bool" where
  "is_digit c = (48 \<le> c \<and> c \<le> 57)"

definition form_MM_SS :: "ustr \<Rightarrow> bool" where
  "form_MM_SS s =
     (length s = 5 \<and> is_digit (s ! 0) \<and> is_digit (s ! 1) \<and> s ! 2 = 58 \<and>
      is_digit (s ! 3) \<and> is_digit (s ! 4))"

definition form_HH_MM_SS :: "ustr \<Rightarrow> bool" where
  "form_HH_MM_SS s =
     (length s = 8 \<and> is_digit (s ! 0) \<and> is_digit (s ! 1) \<and> s ! 2 = 58 \<and>
      is_digit (s ! 3) \<and> is_digit (s ! 4) \<and> s ! 5 = 58 \<and>
      is_digit (s ! 6) \<and> is_digit (s ! 7))"

section \<open>Character classes of the regular expressions\<close>

text \<open>
  \<open>\s\<close> in a \<open>str\<close> pattern, and \<open>str.strip()\<close> without argument, use Python's Unicode
  whitespace test: U+0009..U+000D, U+001C..U+0020, U+0085, U+00A0, U+1680,
  U+2000..U+200A, U+2028, U+2029, U+202F, U+205F and U+3000.
\<close>

definition is_space :: "nat \<Rightarrow> bool" where
  "is_space c =
     ((9 \<le> c \<and> c \<le> 13) \<or> (28 \<le> c \<and> c \<le> 32) \<or> c = 133 \<or> c = 160 \<or> c = 5760 \<or>
      (8192 \<le> c \<and> c \<le> 8202) \<or> c = 8232 \<or> c = 8233 \<or> c = 8239 \<or> c = 8287 \<or>
      c = 12288)"

definition ascii_alnum :: "nat \<Rightarrow> bool" where
  "ascii_alnum c = ((48 \<le> c \<and> c \<le> 57) \<or> (65 \<le> c \<and> c \<le> 90) \<or> (97 \<le> c \<and> c \<le> 122))"

text \<open>
  \<open>\w\<close> in a \<open>str\<close> pattern: an alphanumeric code point or the underscore. Below U+0080
  these are the ASCII letters and digits; from U+0080 on the alphanumeric property comes
  from the Unicode database of the interpreter, which is the parameter \<open>alnum\<close>.
\<close>

definition is_word :: "(nat \<Rightarrow> bool) \<Rightarrow> nat \<Rightarrow> bool" where
  "is_word alnum c = (if c < 128 then ascii_alnum c \<or> c = 95 else alnum c)"

text \<open>
  The first pattern of \<open>sanitize_text\<close> is a character class of fourteen characters:
  the backslash (code point 92) and \<open>^ $ . | ? * + ( ) { } [ ]\<close>.
\<close>

definition regex_special :: "nat \<Rightarrow> bool" where
  "regex_special c = (c = 92 \<or> c \<in> set (ascii ''^$.|?*+(){}[]''))"

text \<open>\<open>str.strip()\<close>: whitespace removed at both ends.\<close>

definition strip :: "ustr \<Rightarrow> ustr" where
  "strip s = rev (dropWhile is_space (rev (dropWhile is_space s)))"

text \<open>
  A slice \<open>s[:n]\<close>: the first \<open>n\<close> elements, and for a negative \<open>n\<close> all but the last
  \<open>-n\<close>.
\<close>

definition slice_to :: "int \<Rightarrow> 'a list \<Rightarrow> 'a list" where
  "slice_to n xs = (if 0 \<le> n then take (nat n) xs else take (length xs - nat (- n)) xs)"

section \<open>sanitize_filename and sanitize_text\<close>

definition TRANSCRIPT_FILENAME_LENGTH :: int where
  "TRANSCRIPT_FILENAME_LENGTH = 36"

text \<open>
  \<open>re.sub(r"[^\w\-\s]", "", name).strip()[:max_length]\<close>, with the pattern of
  \<open>DEFAULT_CONFIG\<close>, and the placeholder for an empty result.
\<close>

definition sanitize_filename :: "(nat \<Rightarrow> bool) \<Rightarrow> ustr \<Rightarrow> int \<Rightarrow> ustr" where
  "sanitize_filename alnum name max_length =
     (let sanitized_filename =
            slice_to max_length
              (strip (filter (\<lambda>c. is_word alnum c \<or> c = 45 \<or> is_space c) name))
      in if sanitized_filename \<noteq> [] then sanitized_filename else ascii ''untitled'')"

text \<open>\<open>re.sub(r"\s+", " ", text)\<close>: every maximal run of whitespace becomes one space.\<close>

function sub_spaces :: "ustr \<Rightarrow> ustr" where
  "sub_spaces [] = []"
| "sub_spaces (c # cs) =
     (if is_space c then 32 # sub_spaces (dropWhile is_space cs) else c # sub_spaces cs)"
  by pat_completeness auto
termination
  by (relation "measure length") (auto simp: length_dropWhile_le less_Suc_eq_le)

text \<open>
  The second pattern is the complement of the ranges U+0000..U+007F and
  U+0080..U+FFFF, so it matches exactly the code points above U+FFFF.
\<close>

definition sanitize_text :: "ustr \<Rightarrow> ustr" where
  "sanitize_text text =
     (if text = [] then []
      else strip (sub_spaces (filter (\<lambda>c. c \<le> 65535) (filter (\<lambda>c. \<not> regex_special c) text))))"


section \<open>find_duplicate_transcripts\<close>

text \<open>\<open>str.endswith\<close> and \<open>str.startswith\<close>.\<close>

definition endswith :: "ustr \<Rightarrow> ustr \<Rightarrow> bool" where
  "endswith s suffix = (length suffix \<le> length s \<and> drop (length s - length suffix) s = suffix)"

definition startswith :: "ustr \<Rightarrow> ustr \<Rightarrow> bool" where
  "startswith s prefix = (take (length prefix) s = prefix)"

text \<open>\<open>os.path.join\<close> of two components, on a POSIX system.\<close>

definition os_path_join :: "ustr \<Rightarrow> ustr \<Rightarrow> ustr" where
  "os_path_join a b =
     (if startswith b [47] then b
      else if a = [] \<or> endswith a [47] then a @ b
      else a @ [47] @ b)"

text \<open>
  The file system as the duplicate scan sees it: whether a path exists, the
  \<open>(root, files)\<close> pairs that \<open>os.walk\<close> yields for a directory, in its order, and
  the bytes of a file, or the exception that opening or reading it raises.
\<close>

record file_system =
  fs_exists :: "ustr \<Rightarrow> bool"
  fs_walk :: "ustr \<Rightarrow> (ustr \<times> ustr list) list"
  fs_read :: "ustr \<Rightarrow> error + nat list"

text \<open>
  \<open>compute_sha1\<close> returns the hexadecimal digest of the file's bytes, or logs the
  exception and returns \<open>None\<close>. \<open>hashlib.sha1\<close> is the parameter \<open>sha1\<close>; feeding it
  the file in chunks of 8192 bytes gives the digest of the whole content.
\<close>

definition compute_sha1 :: "file_system \<Rightarrow> (nat list \<Rightarrow> ustr) \<Rightarrow> ustr \<Rightarrow> ustr option \<times> event list" where
  "compute_sha1 fs sha1 file_path =
     (case fs_read fs file_path of
        Inr content \<Rightarrow> (Some (sha1 content), [])
      | Inl e \<Rightarrow>
          (None, [LogError [Lit ''Error computing SHA1 for '', Str file_path, Lit '': '', Exc e]]))"

text \<open>
  The state of the two loops: the dictionary \<open>hashes\<close>, whose keys are the values
  \<open>compute_sha1\<close> returns (\<open>None\<close> is a key like any other), the list \<open>duplicates\<close>,
  and the log.
\<close>

record scan_state =
  hashes :: "ustr option \<Rightarrow> ustr option"
  duplicates :: "(ustr \<times> ustr) list"
  scan_log :: "event list"

text \<open>
  The body of the inner loop for one file name of one directory; \<open>scan_path\<close> is the
  part under the test on the extension, once \<open>file_path\<close> is known.
\<close>

definition scan_path :: "file_system \<Rightarrow> (nat list \<Rightarrow> ustr) \<Rightarrow> scan_state \<Rightarrow> ustr \<Rightarrow> scan_state" where
  "scan_path fs sha1 st file_path =
     (let (file_hash, logged) = compute_sha1 fs sha1 file_path
      in case hashes st file_hash of
           Some original \<Rightarrow>
             st\<lparr>duplicates := duplicates st @ [(file_path, original)],
                scan_log := scan_log st @ logged\<rparr>
         | None \<Rightarrow>
             st\<lparr>hashes := (hashes st)(file_hash \<mapsto> file_path),
                scan_log := scan_log st @ logged\<rparr>)"

definition scan_file :: "file_system \<Rightarrow> (nat list \<Rightarrow> ustr) \<Rightarrow> ustr \<Rightarrow> scan_state \<Rightarrow> ustr \<Rightarrow> scan_state" where
  "scan_file fs sha1 root_dir st file =
     (if endswith file (ascii ''.json'')
      then scan_path fs sha1 st (os_path_join root_dir file)
      else st)"

definition scan_walk :: "file_system \<Rightarrow> (nat list \<Rightarrow> ustr) \<Rightarrow> (ustr \<times> ustr list) list \<Rightarrow> scan_state" where
  "scan_walk fs sha1 walk =
     foldl (\<lambda>st (root_dir, files). foldl (scan_file fs sha1 root_dir) st files)
       \<lparr>hashes = Map.empty, duplicates = [], scan_log = []\<rparr> walk"

text \<open>
  The report file: one block per pair. Writing it is taken to succeed; the directory is
  the argument (the prompt for it is the caller's side).
\<close>

definition report_text :: "(ustr \<times> ustr) list \<Rightarrow> ustr" where
  "report_text dups =
     concat (map (\<lambda>(dup, original).
        ascii ''Duplicate: '' @ dup @ [10] @ ascii ''Original: '' @ original @ [10, 10]) dups)"

definition find_duplicate_transcripts :: "file_system \<Rightarrow> (nat list \<Rightarrow> ustr) \<Rightarrow> ustr \<Rightarrow> event list" where
  "find_duplicate_transcripts fs sha1 transcripts_dir =
     (if \<not> fs_exists fs transcripts_dir then [Print [Lit ''Directory does not exist.'']]
      else
        (let st = scan_walk fs sha1 (fs_walk fs transcripts_dir)
         in scan_log st @
            (if duplicates st \<noteq> []
             then [WriteText (ascii ''duplicates.txt'') (report_text (duplicates st)),
                   Print [Lit ''Saved duplicate transcripts to '', Str (ascii ''duplicates.txt''), Lit ''.'']]
             else [Print [Lit ''No duplicate transcripts found.'']])))"

text \<open>The paths of the record files of a walk, in the order the loops visit them.\<close>

definition json_paths :: "(ustr \<times> ustr list) list \<Rightarrow> ustr list" where
  "json_paths walk =
     concat (map (\<lambda>(root_dir, files).
        map (os_path_join root_dir) (filter (\<lambda>file. endswith file (ascii ''.json'')) files)) walk)"

section \<open>The providers and the environment\<close>

text \<open>
  One item of a \<open>videos().list\<close> response: the keys the code reads; \<open>None\<close> is an absent
  key.
\<close>

record snippet =
  sn_title :: "ustr option"
  sn_channelTitle :: "ustr option"
  sn_publishedAt :: "ustr option"
  sn_tags :: "ustr list option"

record content_details =
  cd_duration :: "ustr option"

record video_item =
  vi_id :: "ustr option"
  vi_snippet :: "snippet option"
  vi_contentDetails :: "content_details option"

text \<open>One entry of a transcript: its text and its start offset, a number of seconds.\<close>

record transcript_entry =
  te_text :: ustr
  te_start :: pyval

text \<open>
  What \<open>YouTubeTranscriptApi.get_transcript\<close> does: it returns the entries, or raises
  \<open>TranscriptsDisabled\<close>, \<open>NoTranscriptFound\<close> or another exception.
\<close>

datatype transcript_result =
    Transcript "transcript_entry list"
  | TranscriptsDisabled
  | NoTranscriptFound
  | TranscriptFailure error

text \<open>
  One item of a \<open>playlistItems().list\<close> response: the item as the provider returned it
  (it is printed when it is skipped) and what
  \<open>item.get("snippet", {}).get("resourceId", {}).get("videoId")\<close> finds in it. A page is
  its items (\<open>None\<close>: no key \<open>items\<close>) and its continuation token.
\<close>

record playlist_item =
  pi_item :: pyval
  pi_videoId :: "ustr option"

record playlist_page =
  pg_items :: "playlist_item list option"
  pg_nextPageToken :: "ustr option"

text \<open>One item of a \<open>channels().list\<close> response.\<close>

record channel_item =
  ci_uploads :: "ustr option"
  ci_title :: "ustr option"

text \<open>
  The collaborators of a run. Every call receives the events so far, so that a
  provider may answer the same request differently at different times. A response of
  a list call is its items, \<open>None\<close> when the key \<open>items\<close> is absent; \<open>Inl\<close> is a raised
  exception.
  \<^item> \<open>unicode_alnum\<close>: the alphanumeric property of the code points from U+0080 on;
  \<^item> \<open>build_client\<close>: \<open>build("youtube", "v3", developerKey=API_KEY)\<close>, the exception it
    raises if any;
  \<^item> \<open>videos_list\<close>, \<open>search_channel\<close>, \<open>channels_list\<close>, \<open>playlist_items\<close>: the
    \<open>execute()\<close> of the four requests; a search item is the \<open>channelId\<close> of its snippet;
  \<^item> \<open>get_transcript\<close>: the transcript provider;
  \<^item> \<open>isodate_seconds\<close>: \<open>int(isodate.parse_duration(s).total_seconds())\<close>;
  \<^item> \<open>makedirs\<close> and \<open>open_write\<close>: the exception that \<open>os.makedirs(path,
    exist_ok=True)\<close> and \<open>open(path, "w")\<close> raise, if any.
\<close>

record env =
  unicode_alnum :: "nat \<Rightarrow> bool"
  build_client :: "event list \<Rightarrow> error option"
  videos_list :: "event list \<Rightarrow> ustr \<Rightarrow> error + video_item list option"
  search_channel :: "event list \<Rightarrow> ustr \<Rightarrow> error + ustr option list option"
  channels_list :: "event list \<Rightarrow> ustr \<Rightarrow> error + channel_item list option"
  playlist_items :: "event list \<Rightarrow> ustr \<Rightarrow> ustr option \<Rightarrow> error + playlist_page"
  get_transcript :: "event list \<Rightarrow> ustr \<Rightarrow> transcript_result"
  isodate_seconds :: "ustr \<Rightarrow> error + int"
  makedirs :: "event list \<Rightarrow> ustr \<Rightarrow> error option"
  open_write :: "event list \<Rightarrow> ustr \<Rightarrow> error option"

text \<open>Sequencing of computations that may raise, and the subscript of a dictionary.\<close>

definition bind_err :: "error + 'a \<Rightarrow> ('a \<Rightarrow> error + 'b) \<Rightarrow> error + 'b" where
  "bind_err m f = (case m of Inl e \<Rightarrow> Inl e | Inr x \<Rightarrow> f x)"

definition subscript :: "'a option \<Rightarrow> error + 'a" where
  "subscript v = (case v of None \<Rightarrow> Inl KeyError | Some x \<Rightarrow> Inr x)"

text \<open>\<open>d.get(key, default)\<close> on a dictionary.\<close>

definition dict_get :: "(ustr \<times> pyval) list \<Rightarrow> string \<Rightarrow> pyval \<Rightarrow> pyval" where
  "dict_get d key dflt = (case map_of d (ascii key) of None \<Rightarrow> dflt | Some v \<Rightarrow> v)"

section \<open>fetch_video_metadata\<close>

text \<open>The body of the \<open>if\<close>: the subscripts in the order of the source, then the dictionary.\<close>

definition metadata_of_item :: "video_item \<Rightarrow> error + (ustr \<times> pyval) list" where
  "metadata_of_item item =
     bind_err (subscript (vi_snippet item)) (\<lambda>snip.
     bind_err (subscript (vi_contentDetails item)) (\<lambda>content_details.
     bind_err (subscript (sn_title snip)) (\<lambda>title.
     bind_err (subscript (sn_channelTitle snip)) (\<lambda>channel_title.
     bind_err (subscript (sn_publishedAt snip)) (\<lambda>published_at.
     bind_err (subscript (cd_duration content_details)) (\<lambda>duration.
       Inr [(ascii ''title'', PStr title),
            (ascii ''channel_title'', PStr channel_title),
            (ascii ''publish_date'', PStr (take 10 published_at)),
            (ascii ''duration'', PStr duration),
            (ascii ''tags'',
               PList (map PStr (case sn_tags snip of None \<Rightarrow> [] | Some tags \<Rightarrow> tags)))]))))))"

text \<open>
  The result is the metadata dictionary, or the empty dictionary after a logged error or
  warning. Nothing is raised to the caller.
\<close>

definition fetch_video_metadata :: "env \<Rightarrow> ustr \<Rightarrow> event list \<Rightarrow> (ustr \<times> pyval) list \<times> event list" where
  "fetch_video_metadata env video_id t =
     (case build_client env t of
        Some e \<Rightarrow>
          ([], t @ [LogError [Lit ''Error fetching metadata for video ID '', Str video_id,
                              Lit '': '', Exc e]])
      | None \<Rightarrow>
          (let t1 = t @ [CallVideosList video_id]
           in case videos_list env t1 video_id of
                Inl e \<Rightarrow>
                  ([], t1 @ [LogError [Lit ''Error fetching metadata for video ID '', Str video_id,
                                       Lit '': '', Exc e]])
              | Inr response \<Rightarrow>
                  (case response of
                     Some (item # others) \<Rightarrow>
                       (case metadata_of_item item of
                          Inl e \<Rightarrow>
                            ([], t1 @ [LogError [Lit ''Error fetching metadata for video ID '',
                                                 Str video_id, Lit '': '', Exc e]])
                        | Inr found \<Rightarrow> (found, t1))
                   | _ \<Rightarrow>
                       ([], t1 @ [LogWarning [Lit ''No metadata found for video ID: '',
                                              Str video_id]]))))"

section \<open>save_transcript\<close>

text \<open>
  \<open>s.split(sep)\<close> for a non-empty separator: the pieces between the occurrences of
  \<open>sep\<close>, found from the left without overlap. \<open>cur\<close> is the piece being read. The
  result is never empty, so its first and its last element exist.
\<close>

function split_on :: "ustr \<Rightarrow> ustr \<Rightarrow> ustr \<Rightarrow> ustr list" where
  "split_on sep cur s =
     (if s = [] then [cur]
      else if sep \<noteq> [] \<and> startswith s sep then cur # split_on sep [] (drop (length sep) s)
      else split_on sep (cur @ [hd s]) (tl s))"
  by pat_completeness auto
termination
  by (relation "measure (\<lambda>(sep, cur, s). length s)") auto

declare split_on.simps [simp del]

definition split_str :: "ustr \<Rightarrow> ustr \<Rightarrow> ustr list" where
  "split_str s sep = split_on sep [] s"

text \<open>
  What \<open>sanitize_filename\<close> does to a value that need not be a string: \<open>re.sub\<close>
  raises TypeError on anything else. The length is the default of the configuration.
\<close>

definition sanitize_filename_of :: "env \<Rightarrow> pyval \<Rightarrow> error + ustr" where
  "sanitize_filename_of env name =
     (case name of
        PStr s \<Rightarrow> Inr (sanitize_filename (unicode_alnum env) s TRANSCRIPT_FILENAME_LENGTH)
      | _ \<Rightarrow> Inl TypeError)"

text \<open>The list comprehension over the transcript: the first entry that raises ends it.\<close>

fun transcript_lines :: "transcript_entry list \<Rightarrow> error + pyval list" where
  "transcript_lines [] = Inr []"
| "transcript_lines (entry # entries) =
     bind_err (parse_time_format (te_start entry)) (\<lambda>stamp.
     bind_err (transcript_lines entries) (\<lambda>rest.
       Inr (PDict [(ascii ''text'', PStr (sanitize_text (te_text entry))),
                   (ascii ''at'', PStr stamp)] # rest)))"

text \<open>
  \<open>save_transcript\<close> returns the exception it raises, if any, and the events. The
  steps are those of the source, in its order: the two sanitized names, the directory,
  the second resolution of the metadata, the dictionary, the file.
\<close>

definition save_transcript ::
  "env \<Rightarrow> ustr \<Rightarrow> transcript_entry list \<Rightarrow> pyval \<Rightarrow> pyval \<Rightarrow> pyval \<Rightarrow> event list
   \<Rightarrow> error option \<times> event list" where
  "save_transcript env video_url transcript channel_name video_title publish_date t =
     (case sanitize_filename_of env video_title of
        Inl e \<Rightarrow> (Some e, t)
      | Inr sanitized_title \<Rightarrow>
     (case sanitize_filename_of env channel_name of
        Inl e \<Rightarrow> (Some e, t)
      | Inr sanitized_channel \<Rightarrow>
     (let channel_dir = os_path_join (ascii ''transcripts'') sanitized_channel;
          t1 = t @ [MakeDirs channel_dir]
      in case makedirs env t1 channel_dir of
           Some e \<Rightarrow> (Some e, t1)
         | None \<Rightarrow>
     (let (found, t2) =
            fetch_video_metadata env
              (hd (split_str (last (split_str video_url (ascii ''v=''))) (ascii ''&''))) t1
      in case transcript_lines transcript of
           Inl e \<Rightarrow> (Some e, t2)
         | Inr lines \<Rightarrow>
     (let transcript_data =
            PDict [(ascii ''metadata'',
                      PDict [(ascii ''video_url'', PStr video_url),
                             (ascii ''channel_name'', channel_name),
                             (ascii ''video_title'', video_title),
                             (ascii ''publish_date'', publish_date),
                             (ascii ''duration'', dict_get found ''duration'' (PStr (ascii ''Unknown''))),
                             (ascii ''tags'', dict_get found ''tags'' (PList []))]),
                   (ascii ''transcript'', PList lines)];
          filename = os_path_join channel_dir (sanitized_title @ ascii ''.json'')
      in case open_write env t2 filename of
           Some e \<Rightarrow> (Some e, t2)
         | None \<Rightarrow> (None, t2 @ [WriteJson filename transcript_data]))))))"

section \<open>fetch_single_video\<close>

text \<open>
  \<open>re.search\<close> with the pattern \<open>(?:v=|\/)([0-9A-Za-z_-]{11})(?:[&?].*)?\<close> of
  \<open>DEFAULT_CONFIG\<close>: the leftmost position at which \<open>v=\<close> or a slash is followed by
  eleven identifier characters; group 1 is these eleven characters. The last group is
  optional and constrains nothing.
\<close>

definition is_id_char :: "nat \<Rightarrow> bool" where
  "is_id_char c = (ascii_alnum c \<or> c = 95 \<or> c = 45)"

definition id_prefix :: "ustr \<Rightarrow> ustr option" where
  "id_prefix s =
     (if 11 \<le> length s \<and> list_all is_id_char (take 11 s) then Some (take 11 s) else None)"

fun search_video_id :: "ustr \<Rightarrow> ustr option" where
  "search_video_id [] = None"
| "search_video_id (c # cs) =
     (case (if startswith (c # cs) (ascii ''v='') then id_prefix (drop 2 (c # cs))
            else if c = 47 then id_prefix cs else None) of
        Some video_id \<Rightarrow> Some video_id
      | None \<Rightarrow> search_video_id cs)"

text \<open>
  The validation of the metadata a caller supplies. \<open>required_keys\<close> is a set in the
  source; the test has no effect, so the order in which \<open>all\<close> visits it does not
  matter. On the values modelled, \<open>==\<close> against \<open>None\<close>, \<open>""\<close> and \<open>[]\<close> is equality.
\<close>

definition required_keys :: "string list" where
  "required_keys = [''title'', ''channel_title'', ''publish_date'', ''duration'', ''tags'']"

definition is_metadata_valid :: "(ustr \<times> pyval) list \<Rightarrow> bool" where
  "is_metadata_valid supplied =
     list_all (\<lambda>key. case map_of supplied (ascii key) of
                        None \<Rightarrow> False
                      | Some v \<Rightarrow> v \<notin> set [PNone, PStr [], PList []])
       required_keys"

text \<open>
  The block under the comment \<open>Validate provided metadata\<close>: the metadata the rest of
  the function uses, and the events. A supplied dictionary is truthy when it is not
  empty.
\<close>

definition validate_metadata ::
  "env \<Rightarrow> ustr \<Rightarrow> (ustr \<times> pyval) list option \<Rightarrow> event list \<Rightarrow> (ustr \<times> pyval) list \<times> event list" where
  "validate_metadata env video_id supplied t =
     (case supplied of
        None \<Rightarrow> fetch_video_metadata env video_id t
      | Some given \<Rightarrow>
          (if given \<noteq> [] then
             (if is_metadata_valid given
              then (given, t @ [Print [Lit ''Using provided metadata for video ID '', Str video_id]])
              else fetch_video_metadata env video_id
                     (t @ [Print [Lit ''Incomplete or invalid metadata for video ID '', Str video_id,
                                  Lit ''. Fetching from API.'']]))
           else fetch_video_metadata env video_id t))"

text \<open>
  \<open>fetch_single_video\<close> returns nothing; what it does is the events it adds. The URL is
  the argument (the prompt for a missing one is the caller's side).
\<close>

definition fetch_single_video ::
  "env \<Rightarrow> ustr \<Rightarrow> (ustr \<times> pyval) list option \<Rightarrow> event list \<Rightarrow> event list" where
  "fetch_single_video env video_url supplied t =
     (case search_video_id video_url of
        None \<Rightarrow> t @ [Print [Lit ''Invalid URL. Must contain a valid YouTube video ID.'']]
      | Some video_id \<Rightarrow>
          (let (found, t1) = validate_metadata env video_id supplied t
           in if found = [] then
                t1 @ [Print [Lit ''Failed to fetch metadata for video ID '', Str video_id,
                             Lit ''. Skipping.'']]
              else
                (let t2 = t1 @ [CallGetTranscript video_id]
                 in case get_transcript env t2 video_id of
                      Transcript transcript \<Rightarrow>
                        (case save_transcript env video_url transcript
                                (dict_get found ''channel_title'' (PStr (ascii ''Unknown'')))
                                (dict_get found ''title'' (PStr (ascii ''Unknown'')))
                                (dict_get found ''publish_date'' (PStr (ascii ''Unknown''))) t2 of
                           (None, t3) \<Rightarrow>
                             t3 @ [Print [Lit ''Transcript for '',
                                          Val (dict_get found ''title'' (PStr (ascii ''Unknown''))),
                                          Lit '' saved successfully.'']]
                         | (Some e, t3) \<Rightarrow> t3 @ [Print [Lit ''An error occurred: '', Exc e]])
                    | TranscriptsDisabled \<Rightarrow>
                        t2 @ [Print [Lit ''Transcripts are disabled for this video.'']]
                    | NoTranscriptFound \<Rightarrow>
                        t2 @ [Print [Lit ''No transcript found for this video.'']]
                    | TranscriptFailure e \<Rightarrow>
                        t2 @ [Print [Lit ''An error occurred: '', Exc e]])))"

section \<open>process_file_with_video_urls\<close>






section \<open>fetch_channel_videos\<close>

text \<open>\<open>sub in s\<close> on strings.\<close>

fun contains :: "ustr \<Rightarrow> ustr \<Rightarrow> bool" where
  "contains [] sub = (sub = [])"
| "contains (c # cs) sub = (startswith (c # cs) sub \<or> contains cs sub)"

text \<open>The \<open>except\<close> clause of \<open>get_channel_id_from_url\<close>.\<close>

definition channel_id_failed :: "ustr \<Rightarrow> error \<Rightarrow> event list \<Rightarrow> ustr option \<times> event list" where
  "channel_id_failed url e t =
     (None, t @ [LogError [Lit ''Error fetching channel ID for URL '', Str url, Lit '': '', Exc e],
                 Print [Lit ''An error occurred: '', Exc e]])"

definition get_channel_id_from_url :: "env \<Rightarrow> ustr \<Rightarrow> event list \<Rightarrow> ustr option \<times> event list" where
  "get_channel_id_from_url env url t =
     (case build_client env t of
        Some e \<Rightarrow> channel_id_failed url e t
      | None \<Rightarrow>
          (if contains url (ascii ''/@'') then
             (let handle = last (split_str url (ascii ''/@''));
                  t1 = t @ [CallSearchChannel handle]
              in case search_channel env t1 handle of
                   Inl e \<Rightarrow> channel_id_failed url e t1
                 | Inr response \<Rightarrow>
                     (case response of
                        Some (first # others) \<Rightarrow>
                          (case first of
                             Some channel_id \<Rightarrow> (Some channel_id, t1)
                           | None \<Rightarrow> channel_id_failed url KeyError t1)
                      | _ \<Rightarrow> channel_id_failed url ValueError t1))
           else if contains url (ascii ''channel/'') then
             (Some (last (split_str url (ascii ''channel/''))), t)
           else channel_id_failed url ValueError t))"

text \<open>A duration that does not parse is logged and counts as zero seconds.\<close>

definition parse_iso8601_duration :: "env \<Rightarrow> ustr \<Rightarrow> event list \<Rightarrow> int \<times> event list" where
  "parse_iso8601_duration env iso_duration t =
     (case isodate_seconds env iso_duration of
        Inr secs \<Rightarrow> (secs, t)
      | Inl e \<Rightarrow>
          (0, t @ [LogError [Lit ''Error parsing duration '', Lit [CHR 0x27], Str iso_duration,
                             Lit [CHR 0x27], Lit '': '', Exc e]]))"

text \<open>
  The first inner loop of a page: the identifiers of its items, an item without a
  truthy identifier being printed and skipped.
\<close>

definition has_video_id :: "playlist_item \<Rightarrow> bool" where
  "has_video_id item = (pi_videoId item \<noteq> None \<and> pi_videoId item \<noteq> Some [])"

fun page_video_ids :: "playlist_item list \<Rightarrow> event list \<Rightarrow> ustr list \<times> event list" where
  "page_video_ids [] t = ([], t)"
| "page_video_ids (item # items) t =
     (if has_video_id item
      then (let (video_ids, t') = page_video_ids items t
            in (the (pi_videoId item) # video_ids, t'))
      else page_video_ids items (t @ [Print [Lit ''Skipping invalid item: '', Val (pi_item item)]]))"

text \<open>
  The body of the second inner loop, for one item of the \<open>videos().list\<close> response:
  its row. \<open>video["id"]\<close> raises on a missing key.
\<close>

definition default_text :: "ustr option \<Rightarrow> pyval" where
  "default_text v = (case v of None \<Rightarrow> PStr (ascii ''Unknown'') | Some s \<Rightarrow> PStr s)"

definition raw_duration_of :: "video_item \<Rightarrow> ustr" where
  "raw_duration_of video =
     (case vi_contentDetails video of
        None \<Rightarrow> ascii ''Unknown''
      | Some content_details \<Rightarrow>
          (case cd_duration content_details of
             None \<Rightarrow> ascii ''Unknown''
           | Some d \<Rightarrow> d))"

definition video_row :: "env \<Rightarrow> video_item \<Rightarrow> event list \<Rightarrow> (error + pyval list) \<times> event list" where
  "video_row env video t =
     (let snip = (case vi_snippet video of
                    None \<Rightarrow> \<lparr>sn_title = None, sn_channelTitle = None, sn_publishedAt = None,
                              sn_tags = None\<rparr>
                  | Some s \<Rightarrow> s);
          (duration_seconds, t1) = parse_iso8601_duration env (raw_duration_of video) t
      in case parse_time_format (PInt duration_seconds) of
           Inl e \<Rightarrow> (Inl e, t1)
         | Inr formatted_duration \<Rightarrow>
             (case vi_id video of
                None \<Rightarrow> (Inl KeyError, t1)
              | Some video_id \<Rightarrow>
                  (Inr [PStr video_id,
                        default_text (sn_title snip),
                        PList (map PStr (case sn_tags snip of None \<Rightarrow> [] | Some tags \<Rightarrow> tags)),
                        default_text (sn_channelTitle snip),
                        default_text (sn_publishedAt snip),
                        PStr formatted_duration], t1)))"

text \<open>The second inner loop: the rows of the items, up to the first that raises.\<close>

fun video_rows :: "env \<Rightarrow> video_item list \<Rightarrow> event list \<Rightarrow> (error + pyval list list) \<times> event list" where
  "video_rows env [] t = (Inr [], t)"
| "video_rows env (video # videos) t =
     (case video_row env video t of
        (Inl e, t1) \<Rightarrow> (Inl e, t1)
      | (Inr row, t1) \<Rightarrow>
          (case video_rows env videos t1 of
             (Inl e, t2) \<Rightarrow> (Inl e, t2)
           | (Inr rows, t2) \<Rightarrow> (Inr (row # rows), t2)))"

text \<open>\<open>",".join(video_ids)\<close>.\<close>

fun join_comma :: "ustr list \<Rightarrow> ustr" where
  "join_comma [] = []"
| "join_comma [s] = s"
| "join_comma (s # ss) = s @ [44] @ join_comma ss"

text \<open>\<open>response.get("items", [])\<close> on the two list responses.\<close>

definition page_items :: "playlist_page \<Rightarrow> playlist_item list" where
  "page_items playlist_response =
     (case pg_items playlist_response of None \<Rightarrow> [] | Some items \<Rightarrow> items)"

definition response_items :: "video_item list option \<Rightarrow> video_item list" where
  "response_items videos_response =
     (case videos_response of None \<Rightarrow> [] | Some items \<Rightarrow> items)"

text \<open>
  One turn of the \<open>while True\<close> loop, up to the test on the continuation token: the
  rows of the page and its token, or the exception raised.
\<close>

definition fetch_page ::
  "env \<Rightarrow> ustr \<Rightarrow> ustr option \<Rightarrow> event list
   \<Rightarrow> (error + pyval list list \<times> ustr option) \<times> event list" where
  "fetch_page env uploads_playlist_id next_page_token t =
     (let t1 = t @ [CallPlaylistItems uploads_playlist_id next_page_token]
      in case playlist_items env t1 uploads_playlist_id next_page_token of
           Inl e \<Rightarrow> (Inl e, t1)
         | Inr playlist_response \<Rightarrow>
             (let (video_ids, t2) = page_video_ids (page_items playlist_response) t1
              in if video_ids \<noteq> [] then
                   (let t3 = t2 @ [CallVideosList (join_comma video_ids)]
                    in case videos_list env t3 (join_comma video_ids) of
                         Inl e \<Rightarrow> (Inl e, t3)
                       | Inr videos_response \<Rightarrow>
                           (case video_rows env (response_items videos_response) t3 of
                              (Inl e, t4) \<Rightarrow> (Inl e, t4)
                            | (Inr rows, t4) \<Rightarrow>
                                (Inr (rows, pg_nextPageToken playlist_response), t4)))
                 else (Inr ([], pg_nextPageToken playlist_response), t2)))"

text \<open>
  The loop. It ends when a page has no truthy continuation token, or on an exception;
  a provider that always returns a token keeps it running, and then there is no
  result.
\<close>

partial_function (option) fetch_pages ::
  "env \<Rightarrow> ustr \<Rightarrow> pyval list list \<Rightarrow> ustr option \<Rightarrow> event list
   \<Rightarrow> ((error + pyval list list) \<times> event list) option" where
  "fetch_pages env uploads_playlist_id videos next_page_token t =
     (case fetch_page env uploads_playlist_id next_page_token t of
        (Inl e, t') \<Rightarrow> Some (Inl e, t')
      | (Inr (rows, token), t') \<Rightarrow>
          (if token \<noteq> None \<and> token \<noteq> Some []
           then fetch_pages env uploads_playlist_id (videos @ rows) token t'
           else Some (Inr (videos @ rows), t')))"

declare fetch_pages.simps [code]

text \<open>The \<open>except\<close> clause of \<open>fetch_channel_videos\<close>.\<close>

definition channel_videos_failed :: "error \<Rightarrow> event list \<Rightarrow> event list" where
  "channel_videos_failed e t =
     t @ [LogError [Lit ''Error fetching channel videos: '', Exc e],
          Print [Lit ''An error occurred: '', Exc e]]"

definition CSV_HEADER :: "pyval list" where
  "CSV_HEADER = map (\<lambda>s. PStr (ascii s))
     [''Video ID'', ''Title'', ''Tags'', ''Channel Title'', ''Publish Date'', ''Duration'']"

text \<open>What follows the loop: the directory, the table, the message.\<close>

definition save_channel_csv :: "env \<Rightarrow> ustr \<Rightarrow> pyval list list \<Rightarrow> event list \<Rightarrow> event list" where
  "save_channel_csv env channel_name videos t =
     (let channel_dir = os_path_join (ascii ''transcripts'') channel_name;
          t1 = t @ [MakeDirs channel_dir]
      in case makedirs env t1 channel_dir of
           Some e \<Rightarrow> channel_videos_failed e t1
         | None \<Rightarrow>
             (let output_file = os_path_join channel_dir (channel_name @ ascii ''.csv'')
              in case open_write env t1 output_file of
                   Some e \<Rightarrow> channel_videos_failed e t1
                 | None \<Rightarrow>
                     t1 @ [WriteCsv output_file (CSV_HEADER # videos),
                           Print [Lit ''Fetched '', Val (PInt (int (length videos))),
                                  Lit '' videos. Saved to '', Str output_file, Lit ''.'']]))"

text \<open>
  The uploads playlist and the sanitized title of the first item of the
  \<open>channels().list\<close> response.
\<close>

definition channel_uploads :: "env \<Rightarrow> channel_item list option \<Rightarrow> error + ustr \<times> ustr" where
  "channel_uploads env channel_response =
     (case channel_response of
        None \<Rightarrow> Inl KeyError
      | Some [] \<Rightarrow> Inl IndexError
      | Some (first # others) \<Rightarrow>
          bind_err (subscript (ci_uploads first)) (\<lambda>uploads_playlist_id.
          bind_err (subscript (ci_title first)) (\<lambda>title.
            Inr (uploads_playlist_id,
                 sanitize_filename (unicode_alnum env) title TRANSCRIPT_FILENAME_LENGTH))))"

text \<open>The events of a call that returns; \<open>None\<close> when the loop never ends.\<close>

definition fetch_channel_videos :: "env \<Rightarrow> ustr \<Rightarrow> event list \<Rightarrow> event list option" where
  "fetch_channel_videos env channel_url t =
     (case get_channel_id_from_url env channel_url t of
        (None, t0) \<Rightarrow> Some (t0 @ [Print [Lit ''Failed to retrieve channel ID.'']])
      | (Some channel_id, t0) \<Rightarrow>
          (if channel_id = [] then Some (t0 @ [Print [Lit ''Failed to retrieve channel ID.'']])
           else
             (case build_client env t0 of
                Some e \<Rightarrow> Some (channel_videos_failed e t0)
              | None \<Rightarrow>
                  (let t1 = t0 @ [CallChannelsList channel_id]
                   in case bind_err (channels_list env t1 channel_id) (channel_uploads env) of
                        Inl e \<Rightarrow> Some (channel_videos_failed e t1)
                      | Inr (uploads_playlist_id, channel_name) \<Rightarrow>
                          (case fetch_pages env uploads_playlist_id [] None t1 of
                             None \<Rightarrow> None
                           | Some (Inl e, t2) \<Rightarrow> Some (channel_videos_failed e t2)
                           | Some (Inr videos, t2) \<Rightarrow>
                               Some (save_channel_csv env channel_name videos t2))))))"

section \<open>A sample environment\<close>

text \<open>
  An environment in which every provider answers and nothing fails: one video of an hour,
  a minute and a second, with a one-entry transcript, in a channel whose uploads fit on
  one page. The examples below change one collaborator at a time.
\<close>

definition sample_video :: video_item where
  "sample_video =
     \<lparr>vi_id = Some (ascii ''dQw4w9WgXcQ''),
      vi_snippet = Some \<lparr>sn_title = Some (ascii ''A talk: part 1''),
                         sn_channelTitle = Some (ascii ''Some Channel''),
                         sn_publishedAt = Some (ascii ''2020-01-02T03:04:05Z''),
                         sn_tags = Some [ascii ''talk'']\<rparr>,
      vi_contentDetails = Some \<lparr>cd_duration = Some (ascii ''PT1H1M1S'')\<rparr>\<rparr>"

definition sample_env :: env where
  "sample_env =
     \<lparr>unicode_alnum = (\<lambda>c. False),
      build_client = (\<lambda>t. None),
      videos_list = (\<lambda>t ids. Inr (Some [sample_video])),
      search_channel = (\<lambda>t handle. Inr (Some [Some (ascii ''UC0123456789'')])),
      channels_list = (\<lambda>t channel_id.
         Inr (Some [\<lparr>ci_uploads = Some (ascii ''UU0123456789''),
                     ci_title = Some (ascii ''Some Channel'')\<rparr>])),
      playlist_items = (\<lambda>t playlist token.
         Inr \<lparr>pg_items = Some [\<lparr>pi_item = PDict [], pi_videoId = None\<rparr>,
                                \<lparr>pi_item = PDict [], pi_videoId = Some (ascii ''dQw4w9WgXcQ'')\<rparr>],
              pg_nextPageToken = None\<rparr>),
      get_transcript = (\<lambda>t video_id.
         Transcript [\<lparr>te_text = ascii ''hello  (world)'', te_start = PFloat 1.5\<rparr>]),
      isodate_seconds = (\<lambda>s. if s = ascii ''PT1H1M1S'' then Inr 3661 else Inl ValueError),
      makedirs = (\<lambda>t path. None),
      open_write = (\<lambda>t path. None)\<rparr>"

section \<open>Properties of parse_time_format\<close>

lemma dec_digits_small: "n < 10 \<Longrightarrow> dec_digits n = [48 + n]"
  by (simp add: dec_digits.simps)

lemma dec_digits_two: "10 \<le> n \<Longrightarrow> n < 100 \<Longrightarrow> dec_digits n = [48 + n div 10, 48 + n mod 10]"
  by (subst dec_digits.simps) (simp add: dec_digits_small)

lemma dec_digits_all_digits: "list_all is_digit (dec_digits n)"
proof (induction n rule: dec_digits.induct)
  case (1 n)
  show ?case
  proof (cases "n < 10")
    case True
    then show ?thesis by (simp add: dec_digits_small is_digit_def)
  next
    case False
    have "n mod 10 < 10" by simp
    then have "is_digit (48 + n mod 10)" unfolding is_digit_def by linarith
    with False 1 show ?thesis by (subst dec_digits.simps) simp
  qed
qed

lemma dec_digits_nonempty: "dec_digits n \<noteq> []"
  by (subst dec_digits.simps) simp

lemma dec_digits_long: 
  assumes "100 \<le> n" shows "3 \<le> length (dec_digits n)"
proof -
  have a: "dec_digits n = dec_digits (n div 10) @ [48 + n mod 10]"
    using assms by (subst dec_digits.simps) simp
  have "\<not> n div 10 < 10" using assms by linarith
  then have b: "dec_digits (n div 10) = dec_digits (n div 10 div 10) @ [48 + n div 10 mod 10]"
    by (subst dec_digits.simps) simp
  from dec_digits_nonempty[of "n div 10 div 10"] show ?thesis
    by (cases "dec_digits (n div 10 div 10)") (simp_all add: a b)
qed

lemma format_02_two:
  "0 \<le> k \<Longrightarrow> k < 100 \<Longrightarrow> format_02 k = [48 + nat k div 10, 48 + nat k mod 10]"
  by (cases "nat k < 10") (simp_all add: format_02_def dec_digits_small dec_digits_two)

lemma format_02_wide:
  assumes "100 \<le> k" shows "format_02 k = dec_digits (nat k)"
proof -
  have "100 \<le> nat k" using assms by simp
  from dec_digits_long[OF this] assms show ?thesis by (simp add: format_02_def)
qed

lemma is_digit_tens: "k < 100 \<Longrightarrow> is_digit (48 + k div 10)"
  unfolding is_digit_def by simp linarith?

lemma is_digit_units: "is_digit (48 + k mod 10)"
proof -
  have "k mod 10 < 10" by simp
  then show ?thesis unfolding is_digit_def by linarith
qed

lemma format_02_form:
  assumes "0 \<le> m" "m < 60" "0 \<le> s" "s < 60"
  shows "form_MM_SS (format_02 m @ [58] @ format_02 s)"
  using assms by (simp add: format_02_two form_MM_SS_def is_digit_tens is_digit_units)

lemma int_of_seconds_value:
  "seconds_value x = Some v \<Longrightarrow> \<exists>n. int_of_seconds x = Inr n \<and> (0 \<le> v \<longrightarrow> n = \<lfloor>v\<rfloor>)"
  by (cases x) auto

lemma parse_time_format_int:
  "int_of_seconds x = Inr n \<Longrightarrow>
   parse_time_format x =
     Inr (if n div 3600 \<noteq> 0
          then format_02 (n div 3600) @ [58] @ format_02 (n mod 3600 div 60) @ [58] @ format_02 (n mod 3600 mod 60)
          else format_02 (n mod 3600 div 60) @ [58] @ format_02 (n mod 3600 mod 60))"
  by (simp add: parse_time_format_def Let_def)

lemma form_HH_MM_SS_append:
  "0 \<le> h \<Longrightarrow> h < 100 \<Longrightarrow> form_MM_SS r \<Longrightarrow> form_HH_MM_SS (format_02 h @ [58] @ r)"
  by (simp add: format_02_two form_HH_MM_SS_def form_MM_SS_def is_digit_tens is_digit_units nth_Cons')

text \<open>
  Claim C8, as the code has it. \<open>parse_time_format\<close> maps 0 to \<open>00:00\<close>, 3661 to
  \<open>01:01:01\<close> and 59 to \<open>00:59\<close>. Every number of seconds from 0 up to, but not
  including, 3600 is displayed as \<open>MM:SS\<close> with no hour field; every number from 3600
  up to, but not including, 360000 is displayed as \<open>HH:MM:SS\<close>. From 360000 seconds
  (one hundred hours) on, the hour field has three or more digits and is followed by
  \<open>:MM:SS\<close>: the width of two is a minimum, not a cap.
\<close>

theorem parse_time_format_forms:
  "parse_time_format (PInt 0) = Inr (ascii ''00:00'') \<and>
   parse_time_format (PInt 3661) = Inr (ascii ''01:01:01'') \<and>
   parse_time_format (PInt 59) = Inr (ascii ''00:59'') \<and>
   (\<forall>x v. seconds_value x = Some v \<and> 0 \<le> v \<and> v < 3600 \<longrightarrow>
      (\<exists>s. parse_time_format x = Inr s \<and> form_MM_SS s)) \<and>
   (\<forall>x v. seconds_value x = Some v \<and> 3600 \<le> v \<and> v < 360000 \<longrightarrow>
      (\<exists>s. parse_time_format x = Inr s \<and> form_HH_MM_SS s)) \<and>
   (\<forall>x v. seconds_value x = Some v \<and> 360000 \<le> v \<longrightarrow>
      (\<exists>hh r. parse_time_format x = Inr (hh @ [58] @ r) \<and>
         3 \<le> length hh \<and> list_all is_digit hh \<and> form_MM_SS r))"
proof (intro conjI allI impI)
  show "parse_time_format (PInt 0) = Inr (ascii ''00:00'')"
    by (simp add: parse_time_format_def format_02_def dec_digits.simps ascii_def)
  show "parse_time_format (PInt 3661) = Inr (ascii ''01:01:01'')"
    by (simp add: parse_time_format_def format_02_def dec_digits.simps ascii_def)
  show "parse_time_format (PInt 59) = Inr (ascii ''00:59'')"
    by (simp add: parse_time_format_def format_02_def dec_digits.simps ascii_def)
next
  fix x v assume a: "seconds_value x = Some v \<and> 0 \<le> v \<and> v < 3600"
  then obtain n where n: "int_of_seconds x = Inr n" "n = \<lfloor>v\<rfloor>"
    using int_of_seconds_value by blast
  from a n have b: "0 \<le> n" "n < 3600" by (simp_all add: floor_less_iff)
  then have "n div 3600 = 0" "n mod 3600 = n" by simp_all
  moreover have "form_MM_SS (format_02 (n div 60) @ [58] @ format_02 (n mod 60))"
    using b by (intro format_02_form) simp_all
  ultimately show "\<exists>s. parse_time_format x = Inr s \<and> form_MM_SS s"
    using parse_time_format_int[OF n(1)] by simp
next
  fix x v assume a: "seconds_value x = Some v \<and> 3600 \<le> v \<and> v < 360000"
  then obtain n where n: "int_of_seconds x = Inr n" "n = \<lfloor>v\<rfloor>"
    using int_of_seconds_value[of x v] by auto
  from a n have b: "3600 \<le> n" "n < 360000" by (simp_all add: floor_less_iff le_floor_iff)
  then have h: "n div 3600 \<noteq> 0" "0 \<le> n div 3600" "n div 3600 < 100" by simp_all
  have "form_MM_SS (format_02 (n mod 3600 div 60) @ [58] @ format_02 (n mod 3600 mod 60))"
    by (intro format_02_form) simp_all
  then have "form_HH_MM_SS (format_02 (n div 3600) @ [58] @
      format_02 (n mod 3600 div 60) @ [58] @ format_02 (n mod 3600 mod 60))"
    using h by (intro form_HH_MM_SS_append) simp_all
  then show "\<exists>s. parse_time_format x = Inr s \<and> form_HH_MM_SS s"
    using parse_time_format_int[OF n(1)] h(1) by simp
next
  fix x v assume a: "seconds_value x = Some v \<and> 360000 \<le> v"
  then obtain n where n: "int_of_seconds x = Inr n" "n = \<lfloor>v\<rfloor>"
    using int_of_seconds_value[of x v] by auto
  from a n have b: "360000 \<le> n" by (simp add: le_floor_iff)
  then have h: "n div 3600 \<noteq> 0" "100 \<le> n div 3600" by simp_all
  have r: "form_MM_SS (format_02 (n mod 3600 div 60) @ [58] @ format_02 (n mod 3600 mod 60))"
    by (intro format_02_form) simp_all
  have "100 \<le> nat (n div 3600)" using h by simp
  then have l: "3 \<le> length (dec_digits (nat (n div 3600)))" by (rule dec_digits_long)
  have "parse_time_format x = Inr (dec_digits (nat (n div 3600)) @ [58] @
      (format_02 (n mod 3600 div 60) @ [58] @ format_02 (n mod 3600 mod 60)))"
    using parse_time_format_int[OF n(1)] h by (simp add: format_02_wide)
  with r l dec_digits_all_digits[of "nat (n div 3600)"]
  show "\<exists>hh r. parse_time_format x = Inr (hh @ [58] @ r) \<and>
         3 \<le> length hh \<and> list_all is_digit hh \<and> form_MM_SS r" by blast
qed

text \<open>The three ranges of C8 at 3599.5, 7325 and 400000 seconds.\<close>

theorem parse_time_format_forms_witness:
  "parse_time_format (PFloat 3599.5) = Inr (ascii ''59:59'') \<and>
   form_MM_SS (ascii ''59:59'') \<and>
   parse_time_format (PInt 7325) = Inr (ascii ''02:02:05'') \<and>
   form_HH_MM_SS (ascii ''02:02:05'') \<and>
   parse_time_format (PInt 400000) = Inr (ascii ''111'' @ [58] @ ascii ''06:40'') \<and>
   form_MM_SS (ascii ''06:40'')"
proof -
  have a: "parse_time_format (PFloat 3599.5) = Inr (ascii ''59:59'')"
    by (simp add: parse_time_format_def format_02_def dec_digits.simps ascii_def)
  have b: "parse_time_format (PInt 7325) = Inr (ascii ''02:02:05'')"
    by (simp add: parse_time_format_def format_02_def dec_digits.simps ascii_def)
  have c: "parse_time_format (PInt 400000) = Inr (ascii ''111'' @ [58] @ ascii ''06:40'')"
    by (simp add: parse_time_format_def format_02_def dec_digits.simps ascii_def)
  note forms = parse_time_format_forms [THEN conjunct2, THEN conjunct2, THEN conjunct2]
  have "\<exists>s. parse_time_format (PFloat 3599.5) = Inr s \<and> form_MM_SS s"
    using forms [THEN conjunct1, rule_format, of "PFloat 3599.5" "3599.5"] by simp
  with a have a': "form_MM_SS (ascii ''59:59'')" by simp
  have "\<exists>s. parse_time_format (PInt 7325) = Inr s \<and> form_HH_MM_SS s"
    using forms [THEN conjunct2, THEN conjunct1, rule_format, of "PInt 7325" "7325"] by simp
  with b have b': "form_HH_MM_SS (ascii ''02:02:05'')" by simp
  have c': "form_MM_SS (ascii ''06:40'')"
    by (simp add: form_MM_SS_def is_digit_def ascii_def)
  from a a' b b' c c' show ?thesis by simp
qed

text \<open>
  C8 as written fails at one hundred hours: the output \<open>100:00:00\<close> has a three-digit
  hour field, so it is not of the form \<open>HH:MM:SS\<close>.
\<close>

theorem parse_time_format_hundred_hours:
  "parse_time_format (PInt 360000) = Inr (ascii ''100:00:00'') \<and>
   seconds_value (PInt 360000) = Some 360000 \<and>
   \<not> form_HH_MM_SS (ascii ''100:00:00'')"
  by (simp add: parse_time_format_def format_02_def dec_digits.simps ascii_def form_HH_MM_SS_def)

section \<open>Properties of strip and sanitize_filename\<close>

lemma dropWhile_hd_id: "xs = [] \<or> \<not> P (hd xs) \<Longrightarrow> dropWhile P xs = xs"
  by (cases xs) auto

lemma strip_id:
  assumes "xs \<noteq> []" "\<not> is_space (hd xs)" "\<not> is_space (last xs)"
  shows "strip xs = xs"
proof -
  have "dropWhile is_space xs = xs" using assms by (simp add: dropWhile_hd_id)
  moreover have "dropWhile is_space (rev xs) = rev xs"
    using assms by (intro dropWhile_hd_id) (simp add: hd_rev)
  ultimately show ?thesis by (simp add: strip_def)
qed

lemma length_strip_le: "length (strip xs) \<le> length xs"
  unfolding strip_def
  by (metis length_dropWhile_le length_rev le_trans)

lemma length_strip_less:
  assumes "xs \<noteq> []" "is_space (last xs)"
  shows "length (strip xs) < length xs"
proof -
  let ?d = "dropWhile is_space xs"
  show ?thesis
  proof (cases "?d = []")
    case True
    have "strip xs = []" unfolding strip_def True by simp
    with assms show ?thesis by simp
  next
    case False
    then have "last ?d = last xs"
      by (metis takeWhile_dropWhile_id last_appendR)
    with assms False have "is_space (hd (rev ?d))" by (simp add: hd_rev)
    with False have "dropWhile is_space (rev ?d) = dropWhile is_space (tl (rev ?d))"
      by (cases "rev ?d") auto
    then have "length (dropWhile is_space (rev ?d)) \<le> length (tl (rev ?d))"
      using length_dropWhile_le[of is_space "tl (rev ?d)"] by simp
    also have "\<dots> < length ?d" using False by simp
    also have "\<dots> \<le> length xs" by (rule length_dropWhile_le)
    finally show ?thesis by (simp add: strip_def)
  qed
qed

lemma strip_hd:
  assumes "strip xs \<noteq> []"
  shows "\<not> is_space (hd (strip xs))"
proof -
  let ?d = "dropWhile is_space xs"
  let ?e = "dropWhile is_space (rev ?d)"
  have "strip xs = []" if "?d = []" unfolding strip_def that by simp
  with assms have d: "?d \<noteq> []" by blast
  then have h: "\<not> is_space (hd ?d)" by (rule hd_dropWhile)
  have "rev ?d = takeWhile is_space (rev ?d) @ ?e" by simp
  then have "?d = rev ?e @ rev (takeWhile is_space (rev ?d))"
    by (metis rev_append rev_rev_ident)
  moreover have "rev ?e \<noteq> []" using assms by (simp add: strip_def)
  ultimately have "hd ?d = hd (rev ?e)" by (metis hd_append2)
  with h show ?thesis by (simp add: strip_def)
qed

lemma set_strip: "set (strip xs) \<subseteq> set xs"
  by (auto simp: strip_def dest!: set_dropWhileD)


lemma untitled_facts:
  "ascii ''untitled'' \<noteq> []" "\<not> is_space (hd (ascii ''untitled''))"
  "\<not> is_space (last (ascii ''untitled''))" "length (ascii ''untitled'') = 8"
  "filter (\<lambda>c. is_word alnum c \<or> c = 45 \<or> is_space c) (ascii ''untitled'') = ascii ''untitled''"
  by (simp_all add: ascii_def is_space_def is_word_def ascii_alnum_def)

lemma sanitize_filename_shape:
  assumes "8 \<le> n"
  shows "sanitize_filename alnum s n \<noteq> []"
    and "\<not> is_space (hd (sanitize_filename alnum s n))"
    and "length (sanitize_filename alnum s n) \<le> nat n"
    and "filter (\<lambda>c. is_word alnum c \<or> c = 45 \<or> is_space c) (sanitize_filename alnum s n)
         = sanitize_filename alnum s n"
proof -
  let ?keep = "\<lambda>c. is_word alnum c \<or> c = 45 \<or> is_space c"
  let ?t = "strip (filter ?keep s)"
  let ?cut = "take (nat n) ?t"
  let ?r = "sanitize_filename alnum s n"
  have n8: "8 \<le> nat n" using assms by simp
  have r: "?r = (if ?cut \<noteq> [] then ?cut else ascii ''untitled'')"
    using assms by (simp add: sanitize_filename_def slice_to_def Let_def)
  show "?r \<noteq> []" using r untitled_facts(1) by simp
  show "\<not> is_space (hd ?r)"
  proof (cases "?cut = []")
    case True
    with r untitled_facts(2) show ?thesis by simp
  next
    case False
    then have "?t \<noteq> []" by auto
    then have "\<not> is_space (hd ?t)" by (rule strip_hd)
    moreover have "hd ?cut = hd ?t" using False by (cases ?t; cases "nat n") simp_all
    ultimately show ?thesis using r False by simp
  qed
  show "length ?r \<le> nat n"
  proof (cases "?cut = []")
    case True
    with r have "?r = ascii ''untitled''" by simp
    with n8 untitled_facts(4) show ?thesis by simp
  next
    case False
    with r have "?r = ?cut" by simp
    then show ?thesis by simp
  qed
  show "filter ?keep ?r = ?r"
  proof (cases "?cut = []")
    case True
    with r untitled_facts(5) show ?thesis by simp
  next
    case False
    have "set ?cut \<subseteq> set ?t" by (rule set_take_subset)
    also have "\<dots> \<subseteq> set (filter ?keep s)" by (rule set_strip)
    finally have "\<forall>c\<in>set ?cut. ?keep c" by auto
    then have "filter ?keep ?cut = ?cut" by (rule filter_True)
    moreover have "?r = ?cut" using r False by simp
    ultimately show ?thesis by (simp only:)
  qed
qed

lemma sanitize_filename_again:
  assumes "8 \<le> n" "r \<noteq> []" "\<not> is_space (hd r)" "length r \<le> nat n"
    and "filter (\<lambda>c. is_word alnum c \<or> c = 45 \<or> is_space c) r = r"
  shows "sanitize_filename alnum r n = r \<longleftrightarrow> \<not> is_space (last r)"
proof (cases "is_space (last r)")
  case False
  with assms have "strip r = r" by (simp add: strip_id)
  with assms False show ?thesis
    by (simp add: sanitize_filename_def slice_to_def Let_def)
next
  case True
  let ?q = "take (nat n) (strip r)"
  have "length ?q < length r" using length_strip_less[OF assms(2) True] by simp
  then have a: "?q \<noteq> r" by (metis less_irrefl)
  have b: "ascii ''untitled'' \<noteq> r" using True untitled_facts(3) by auto
  have "sanitize_filename alnum r n = (if ?q \<noteq> [] then ?q else ascii ''untitled'')"
    using assms by (simp add: sanitize_filename_def slice_to_def Let_def)
  with a b True show ?thesis by auto
qed

text \<open>
  Claim C4, as the code has it. With a maximum length of at least eight (so that the
  placeholder \<open>untitled\<close> fits), sanitizing a sanitized name gives the same name exactly
  when that name does not end in whitespace. The code strips before it truncates, so a
  name cut right after a whitespace character keeps it, and the second application
  strips it.
\<close>

theorem sanitize_filename_idempotent_iff:
  "8 \<le> n \<Longrightarrow>
   (sanitize_filename alnum (sanitize_filename alnum s n) n = sanitize_filename alnum s n)
     = (\<not> is_space (last (sanitize_filename alnum s n)))"
  by (intro sanitize_filename_again sanitize_filename_shape)

text \<open>C4 at a title that the default length of 36 does not cut.\<close>

theorem sanitize_filename_idempotent_iff_witness:
  "(8::int) \<le> TRANSCRIPT_FILENAME_LENGTH \<and>
   sanitize_filename (\<lambda>c. False) (ascii ''My Video: part #1!'') TRANSCRIPT_FILENAME_LENGTH
     = ascii ''My Video part 1'' \<and>
   sanitize_filename (\<lambda>c. False)
       (sanitize_filename (\<lambda>c. False) (ascii ''My Video: part #1!'') TRANSCRIPT_FILENAME_LENGTH)
       TRANSCRIPT_FILENAME_LENGTH
     = sanitize_filename (\<lambda>c. False) (ascii ''My Video: part #1!'') TRANSCRIPT_FILENAME_LENGTH"
proof -
  have v: "sanitize_filename (\<lambda>c. False) (ascii ''My Video: part #1!'') TRANSCRIPT_FILENAME_LENGTH
     = ascii ''My Video part 1''"
    by (simp add: sanitize_filename_def slice_to_def strip_def ascii_def is_space_def
        is_word_def ascii_alnum_def TRANSCRIPT_FILENAME_LENGTH_def)
  have l: "\<not> is_space (last (ascii ''My Video part 1''))"
    by (simp add: ascii_def is_space_def)
  have n: "(8::int) \<le> TRANSCRIPT_FILENAME_LENGTH"
    by (simp add: TRANSCRIPT_FILENAME_LENGTH_def)
  from sanitize_filename_idempotent_iff[OF n, of "\<lambda>c. False" "ascii ''My Video: part #1!''"] v l n
  show ?thesis by simp
qed

text \<open>
  C4 as written fails with the default maximum length of 36: the 36th character of the
  cleaned title is a space, the first application keeps it and the second removes it.
  It also fails for a configured length below eight, which cuts the placeholder.
\<close>

theorem sanitize_filename_not_idempotent:
  "sanitize_filename (\<lambda>c. False)
      (ascii ''How to verify a program in Isabelle, fully'') TRANSCRIPT_FILENAME_LENGTH
     = ascii ''How to verify a program in Isabelle '' \<and>
   sanitize_filename (\<lambda>c. False)
      (sanitize_filename (\<lambda>c. False)
         (ascii ''How to verify a program in Isabelle, fully'') TRANSCRIPT_FILENAME_LENGTH)
      TRANSCRIPT_FILENAME_LENGTH
     = ascii ''How to verify a program in Isabelle'' \<and>
   sanitize_filename (\<lambda>c. False) (ascii ''?!'') 3 = ascii ''untitled'' \<and>
   sanitize_filename (\<lambda>c. False) (sanitize_filename (\<lambda>c. False) (ascii ''?!'') 3) 3 = ascii ''unt''"
  by (simp add: sanitize_filename_def slice_to_def strip_def ascii_def is_space_def
        is_word_def ascii_alnum_def TRANSCRIPT_FILENAME_LENGTH_def)

section \<open>Properties of sanitize_text\<close>














section \<open>Properties of find_duplicate_transcripts\<close>

lemma scan_files_paths:
  "foldl (scan_file fs sha1 root_dir) st files
   = foldl (scan_path fs sha1) st
       (map (os_path_join root_dir) (filter (\<lambda>file. endswith file (ascii ''.json'')) files))"
  by (induction files arbitrary: st) (simp_all add: scan_file_def)

lemma scan_walk_paths_from:
  "foldl (\<lambda>st (root_dir, files). foldl (scan_file fs sha1 root_dir) st files) st walk
   = foldl (scan_path fs sha1) st (json_paths walk)"
  by (induction walk arbitrary: st) (simp_all add: json_paths_def scan_files_paths split: prod.splits)

lemma scan_walk_paths:
  "scan_walk fs sha1 walk
   = foldl (scan_path fs sha1) \<lparr>hashes = Map.empty, duplicates = [], scan_log = []\<rparr> (json_paths walk)"
  by (simp add: scan_walk_def scan_walk_paths_from)

lemma find_append_first:
  "find P (xs @ ys) = (case find P xs of Some x \<Rightarrow> Some x | None \<Rightarrow> find P ys)"
  by (induction xs) simp_all

lemma scan_path_fst:
  "scan_path fs sha1 st p =
     (case hashes st (fst (compute_sha1 fs sha1 p)) of
        Some original \<Rightarrow>
          st\<lparr>duplicates := duplicates st @ [(p, original)],
             scan_log := scan_log st @ snd (compute_sha1 fs sha1 p)\<rparr>
      | None \<Rightarrow>
          st\<lparr>hashes := (hashes st)(fst (compute_sha1 fs sha1 p) \<mapsto> p),
             scan_log := scan_log st @ snd (compute_sha1 fs sha1 p)\<rparr>)"
  by (cases "compute_sha1 fs sha1 p") (simp add: scan_path_def split: option.splits)

lemma scan_paths_duplicates:
  assumes "distinct (pre @ rest)"
    and "hashes st = (\<lambda>h. find (\<lambda>q. fst (compute_sha1 fs sha1 q) = h) pre)"
  shows "duplicates (foldl (scan_path fs sha1) st rest)
         = duplicates st @
           map (\<lambda>p. (p, the (find (\<lambda>q. fst (compute_sha1 fs sha1 q) = fst (compute_sha1 fs sha1 p)) (pre @ rest))))
             (filter (\<lambda>p. find (\<lambda>q. fst (compute_sha1 fs sha1 q) = fst (compute_sha1 fs sha1 p)) (pre @ rest) \<noteq> Some p) rest)"
  using assms
proof (induction rest arbitrary: st pre)
  case Nil
  then show ?case by simp
next
  case (Cons p rest)
  let ?key = "\<lambda>q. fst (compute_sha1 fs sha1 q)"
  let ?first = "\<lambda>ps p. find (\<lambda>q. ?key q = ?key p) ps"
  let ?st' = "scan_path fs sha1 st p"
  have d': "distinct ((pre @ [p]) @ rest)" using Cons.prems(1) by simp
  have app: "pre @ p # rest = (pre @ [p]) @ rest" by simp
  show ?case
  proof (cases "?first pre p")
    case None
    have h': "hashes ?st' = (\<lambda>h. find (\<lambda>q. ?key q = h) (pre @ [p]))"
      using None Cons.prems(2)
      by (auto simp: scan_path_fst fun_eq_iff find_append_first split: option.splits)
    have dup': "duplicates ?st' = duplicates st"
      using None Cons.prems(2) by (simp add: scan_path_fst)
    have fp: "?first (pre @ p # rest) p = Some p"
      using None by (simp add: find_append_first)
    show ?thesis
      using Cons.IH[OF d' h'] dup' fp by (simp only: app foldl_Cons filter.simps) simp
  next
    case (Some q)
    then have qin: "q \<in> set pre" by (auto simp: find_Some_iff)
    then have qp: "q \<noteq> p" using Cons.prems(1) by auto
    have h': "hashes ?st' = (\<lambda>h. find (\<lambda>q. ?key q = h) (pre @ [p]))"
      using Some Cons.prems(2)
      by (auto simp: scan_path_fst fun_eq_iff find_append_first split: option.splits)
    have dup': "duplicates ?st' = duplicates st @ [(p, q)]"
      using Some Cons.prems(2) by (simp add: scan_path_fst)
    have fp: "?first (pre @ p # rest) p = Some q"
      using Some by (simp add: find_append_first)
    show ?thesis
      using Cons.IH[OF d' h'] dup' fp qp by (simp only: app foldl_Cons filter.simps) simp
  qed
qed


lemma scan_paths_log:
  "scan_log (foldl (scan_path fs sha1) st ps)
   = scan_log st @ concat (map (\<lambda>p. snd (compute_sha1 fs sha1 p)) ps)"
  by (induction ps arbitrary: st) (simp_all add: scan_path_fst split: option.splits)

lemma scan_walk_duplicates:
  assumes "distinct (json_paths walk)"
  shows "duplicates (scan_walk fs sha1 walk)
         = map (\<lambda>p. (p, the (find (\<lambda>q. fst (compute_sha1 fs sha1 q) = fst (compute_sha1 fs sha1 p)) (json_paths walk))))
             (filter (\<lambda>p. find (\<lambda>q. fst (compute_sha1 fs sha1 q) = fst (compute_sha1 fs sha1 p)) (json_paths walk) \<noteq> Some p)
                (json_paths walk))"
  using scan_paths_duplicates[of "[]" "json_paths walk"
      "\<lparr>hashes = Map.empty, duplicates = [], scan_log = []\<rparr>" fs sha1] assms
  by (simp add: scan_walk_paths)

lemma find_filter_hd: "filter P xs \<noteq> [] \<Longrightarrow> find P xs = Some (hd (filter P xs))"
  by (induction xs) auto

lemma find_cong_set: "(\<And>x. x \<in> set xs \<Longrightarrow> P x = Q x) \<Longrightarrow> find P xs = find Q xs"
  by (induction xs) auto

lemma find_self: "p \<in> set xs \<Longrightarrow> P p \<Longrightarrow> \<exists>q. find P xs = Some q \<and> P q \<and> q \<in> set xs"
  by (induction xs) auto

lemma filter_neq_hd: "distinct xs \<Longrightarrow> xs \<noteq> [] \<Longrightarrow> filter (\<lambda>p. p \<noteq> hd xs) xs = tl xs"
  by (cases xs) (auto intro: filter_True)

lemma compute_sha1_readable:
  "fs_read fs p = Inr c \<Longrightarrow> compute_sha1 fs sha1 p = (Some (sha1 c), [])"
  by (simp add: compute_sha1_def)

lemma bucket_pairs:
  assumes dist: "distinct (json_paths walk)"
    and rd: "\<And>p. p \<in> set (json_paths walk) \<Longrightarrow> fs_read fs p = Inr (content p)"
    and nocoll: "\<And>p. p \<in> set (json_paths walk) \<Longrightarrow> sha1 (content p) = sha1 x \<Longrightarrow> content p = x"
    and ne: "filter (\<lambda>p. content p = x) (json_paths walk) \<noteq> []"
  shows "filter (\<lambda>(d, original). d \<in> set (filter (\<lambda>p. content p = x) (json_paths walk)) \<or>
                    original \<in> set (filter (\<lambda>p. content p = x) (json_paths walk)))
           (duplicates (scan_walk fs sha1 walk))
         = map (\<lambda>p. (p, hd (filter (\<lambda>p. content p = x) (json_paths walk))))
             (tl (filter (\<lambda>p. content p = x) (json_paths walk)))"
proof -
  let ?ps = "json_paths walk"
  let ?K = "\<lambda>q. fst (compute_sha1 fs sha1 q)"
  let ?B = "filter (\<lambda>p. content p = x) ?ps"
  let ?first = "\<lambda>p. find (\<lambda>q. ?K q = ?K p) ?ps"
  let ?g = "\<lambda>p. (p, the (?first p))"
  let ?inv = "\<lambda>(d, original). d \<in> set ?B \<or> original \<in> set ?B"
  have K: "?K p = Some (sha1 (content p))" if "p \<in> set ?ps" for p
    using rd[OF that] by (simp add: compute_sha1_readable)
  have first_in: "?first p = Some (hd ?B)" if "p \<in> set ?ps" "content p = x" for p
  proof -
    have "find (\<lambda>q. ?K q = ?K p) ?ps = find (\<lambda>q. content q = x) ?ps"
    proof (rule find_cong_set)
      fix q assume "q \<in> set ?ps"
      then show "(?K q = ?K p) = (content q = x)"
        using K that nocoll by auto
    qed
    then show ?thesis using find_filter_hd[OF ne] by simp
  qed
  have first_out: "the (?first p) \<notin> set ?B" if pin: "p \<in> set ?ps" and pne: "content p \<noteq> x" for p
  proof -
    from find_self[of p ?ps "\<lambda>q. ?K q = ?K p"] pin
    obtain q where q: "?first p = Some q" "?K q = ?K p" "q \<in> set ?ps" by auto
    then have "sha1 (content q) = sha1 (content p)" using K pin by auto
    then have "content q \<noteq> x" using nocoll[OF pin] pne by auto
    with q show ?thesis by simp
  qed
  have inv_iff: "?inv (?g p) = (content p = x)" if "p \<in> set ?ps" for p
  proof (cases "content p = x")
    case True
    with that show ?thesis by simp
  next
    case False
    with that first_out[OF that False] show ?thesis by simp
  qed
  have "filter ?inv (duplicates (scan_walk fs sha1 walk))
        = map ?g (filter (\<lambda>p. ?inv (?g p)) (filter (\<lambda>p. ?first p \<noteq> Some p) ?ps))"
    by (simp only: scan_walk_duplicates[OF dist] filter_map comp_def)
  also have "\<dots> = map ?g (filter (\<lambda>p. p \<noteq> hd ?B) ?B)"
  proof -
    have "filter (\<lambda>p. ?inv (?g p)) (filter (\<lambda>p. ?first p \<noteq> Some p) ?ps)
          = filter (\<lambda>p. p \<noteq> hd ?B) ?B"
      unfolding filter_filter
    proof (rule filter_cong[OF refl])
      fix p assume p: "p \<in> set ?ps"
      show "(?first p \<noteq> Some p \<and> ?inv (?g p)) = (content p = x \<and> p \<noteq> hd ?B)"
        using inv_iff[OF p] first_in[OF p] by auto
    qed
    then show ?thesis by (simp only:)
  qed
  also have "\<dots> = map ?g (tl ?B)"
    using filter_neq_hd[of ?B] dist ne by simp
  also have "\<dots> = map (\<lambda>p. (p, hd ?B)) (tl ?B)"
  proof (rule map_cong[OF refl])
    fix p assume "p \<in> set (tl ?B)"
    then have "p \<in> set ?B" using ne by (metis list.set_sel(2))
    then show "?g p = (p, hd ?B)" using first_in by simp
  qed
  finally show ?thesis .
qed

lemma duplicates_in_paths:
  assumes "distinct (json_paths walk)" "(d, original) \<in> set (duplicates (scan_walk fs sha1 walk))"
  shows "d \<in> set (json_paths walk)"
  using assms(2) unfolding scan_walk_duplicates[OF assms(1)] by auto


lemma filter_eq_single: "distinct xs \<Longrightarrow> d \<in> set xs \<Longrightarrow> filter (\<lambda>p. p = d) xs = [d]"
  by (induction xs) (auto simp: filter_empty_conv)

lemma three_and_one:
  assumes dist: "distinct (json_paths walk)"
    and rd: "\<And>p. p \<in> set (json_paths walk) \<Longrightarrow> fs_read fs p = Inr (content p)"
    and three: "filter (\<lambda>p. p \<noteq> d) (json_paths walk) = [p1, p2, p3]"
    and din: "d \<in> set (json_paths walk)"
    and same: "content p2 = content p1" "content p3 = content p1"
    and differs: "sha1 (content d) \<noteq> sha1 (content p1)"
  shows "duplicates (scan_walk fs sha1 walk) = [(p2, p1), (p3, p1)]"
proof -
  let ?ps = "json_paths walk"
  let ?x = "content p1"
  let ?y = "content d"
  let ?dups = "duplicates (scan_walk fs sha1 walk)"
  have mem: "p = d \<or> p \<in> {p1, p2, p3}" if "p \<in> set ?ps" for p
  proof (cases "p = d")
    case False
    with that have "p \<in> set (filter (\<lambda>p. p \<noteq> d) ?ps)" by simp
    then show ?thesis unfolding three by simp
  qed simp
  have p123: "p1 \<noteq> d" "p2 \<noteq> d" "p3 \<noteq> d"
  proof -
    have "set [p1, p2, p3] = set (filter (\<lambda>p. p \<noteq> d) ?ps)" by (simp only: three)
    then have "\<forall>p\<in>set [p1, p2, p3]. p \<noteq> d" by (simp only: set_filter) blast
    then show "p1 \<noteq> d" "p2 \<noteq> d" "p3 \<noteq> d" by simp_all
  qed
  have xy: "?y \<noteq> ?x" using differs by auto
  have cx: "(content p = ?x) = (p \<noteq> d)" if "p \<in> set ?ps" for p
    using mem[OF that] same xy p123 by auto
  have cy: "(content p = ?y) = (p = d)" if "p \<in> set ?ps" for p
    using mem[OF that] same xy p123 by auto
  have Bx: "filter (\<lambda>p. content p = ?x) ?ps = [p1, p2, p3]"
  proof -
    have "filter (\<lambda>p. content p = ?x) ?ps = filter (\<lambda>p. p \<noteq> d) ?ps"
      by (rule filter_cong[OF refl]) (simp add: cx)
    then show ?thesis by (simp only: three)
  qed
  have By: "filter (\<lambda>p. content p = ?y) ?ps = [d]"
  proof -
    have "filter (\<lambda>p. content p = ?y) ?ps = filter (\<lambda>p. p = d) ?ps"
      by (rule filter_cong[OF refl]) (simp add: cy)
    also have "\<dots> = [d]" using dist din by (rule filter_eq_single)
    finally show ?thesis .
  qed
  have ncx: "content p = ?x" if "p \<in> set ?ps" "sha1 (content p) = sha1 ?x" for p
    using mem[OF that(1)] that(2) same differs by auto
  have ncy: "content p = ?y" if "p \<in> set ?ps" "sha1 (content p) = sha1 ?y" for p
    using mem[OF that(1)] that(2) same differs by auto
  have nex: "filter (\<lambda>p. content p = ?x) ?ps \<noteq> []" unfolding Bx by simp
  have ney: "filter (\<lambda>p. content p = ?y) ?ps \<noteq> []" unfolding By by simp
  have mx: "map (\<lambda>p. (p, hd [p1, p2, p3])) (tl [p1, p2, p3]) = [(p2, p1), (p3, p1)]" by simp
  have my: "map (\<lambda>p. (p, hd [d])) (tl [d]) = []" by simp
  have px: "filter (\<lambda>(a, b). a \<in> set [p1, p2, p3] \<or> b \<in> set [p1, p2, p3]) ?dups
            = [(p2, p1), (p3, p1)]"
    using bucket_pairs[of walk fs content sha1 ?x, OF dist rd ncx nex] unfolding Bx mx .
  have py: "filter (\<lambda>(a, b). a \<in> set [d] \<or> b \<in> set [d]) ?dups = []"
    using bucket_pairs[of walk fs content sha1 ?y, OF dist rd ncy ney] unfolding By my .
  have "\<forall>pr\<in>set ?dups. (\<lambda>(a, b). a \<in> set [p1, p2, p3] \<or> b \<in> set [p1, p2, p3]) pr"
  proof
    fix pr assume pr: "pr \<in> set ?dups"
    obtain a b where ab: "pr = (a, b)" by (cases pr)
    with pr have "a \<in> set ?ps" using duplicates_in_paths[OF dist] by blast
    moreover have "a \<noteq> d"
    proof
      assume "a = d"
      with pr ab have "pr \<in> set (filter (\<lambda>(a, b). a \<in> set [d] \<or> b \<in> set [d]) ?dups)" by simp
      then show False unfolding py by simp
    qed
    ultimately have "a \<in> {p1, p2, p3}" using mem by blast
    with ab show "(\<lambda>(a, b). a \<in> set [p1, p2, p3] \<or> b \<in> set [p1, p2, p3]) pr" by auto
  qed
  then have "filter (\<lambda>(a, b). a \<in> set [p1, p2, p3] \<or> b \<in> set [p1, p2, p3]) ?dups = ?dups"
    by (rule filter_True)
  with px show ?thesis by (simp only:)
qed


lemma readable_log_empty:
  assumes "\<And>p. p \<in> set (json_paths walk) \<Longrightarrow> fs_read fs p = Inr (content p)"
  shows "scan_log (scan_walk fs sha1 walk) = []"
proof -
  have "\<forall>p\<in>set (json_paths walk). snd (compute_sha1 fs sha1 p) = []"
    using assms by (simp add: compute_sha1_readable)
  then have "concat (map (\<lambda>p. snd (compute_sha1 fs sha1 p)) (json_paths walk)) = []"
    by simp
  then show ?thesis by (simp add: scan_walk_paths scan_paths_log)
qed

text \<open>
  Claim C6. Take a directory whose record files have distinct paths and are all readable.
  If the record files are exactly three files with the same bytes and one file whose
  digest differs, the scan finds exactly two pairs, both with the first-seen of the three
  as original, and the report file holds these two pairs; the differing file is in no
  pair. In general, for any content \<open>x\<close> whose digest no other content of the walk
  shares, the pairs that involve a file with content \<open>x\<close> are, in walk order, one pair
  for each such file but the first-seen, each pointing at the first-seen: \<open>n\<close> files
  give \<open>n - 1\<close> pairs.
\<close>

theorem find_duplicates_buckets:
  assumes ex: "fs_exists fs dir"
    and dist: "distinct (json_paths (fs_walk fs dir))"
    and rd: "\<forall>p\<in>set (json_paths (fs_walk fs dir)). fs_read fs p = Inr (content p)"
  shows
    "(\<forall>p1 p2 p3 d.
        filter (\<lambda>p. p \<noteq> d) (json_paths (fs_walk fs dir)) = [p1, p2, p3] \<and>
        d \<in> set (json_paths (fs_walk fs dir)) \<and>
        content p2 = content p1 \<and> content p3 = content p1 \<and>
        sha1 (content d) \<noteq> sha1 (content p1) \<longrightarrow>
        duplicates (scan_walk fs sha1 (fs_walk fs dir)) = [(p2, p1), (p3, p1)] \<and>
        find_duplicate_transcripts fs sha1 dir =
          [WriteText (ascii ''duplicates.txt'') (report_text [(p2, p1), (p3, p1)]),
           Print [Lit ''Saved duplicate transcripts to '', Str (ascii ''duplicates.txt''), Lit ''.'']]) \<and>
     (\<forall>x.
        (\<forall>p\<in>set (json_paths (fs_walk fs dir)). sha1 (content p) = sha1 x \<longrightarrow> content p = x) \<and>
        filter (\<lambda>p. content p = x) (json_paths (fs_walk fs dir)) \<noteq> [] \<longrightarrow>
        filter (\<lambda>(d, original).
                  d \<in> set (filter (\<lambda>p. content p = x) (json_paths (fs_walk fs dir))) \<or>
                  original \<in> set (filter (\<lambda>p. content p = x) (json_paths (fs_walk fs dir))))
          (duplicates (scan_walk fs sha1 (fs_walk fs dir)))
        = map (\<lambda>p. (p, hd (filter (\<lambda>p. content p = x) (json_paths (fs_walk fs dir)))))
            (tl (filter (\<lambda>p. content p = x) (json_paths (fs_walk fs dir)))) \<and>
        length (filter (\<lambda>(d, original).
                  d \<in> set (filter (\<lambda>p. content p = x) (json_paths (fs_walk fs dir))) \<or>
                  original \<in> set (filter (\<lambda>p. content p = x) (json_paths (fs_walk fs dir))))
          (duplicates (scan_walk fs sha1 (fs_walk fs dir))))
        = length (filter (\<lambda>p. content p = x) (json_paths (fs_walk fs dir))) - 1)"
proof (intro conjI allI impI)
  fix p1 p2 p3 d
  assume a: "filter (\<lambda>p. p \<noteq> d) (json_paths (fs_walk fs dir)) = [p1, p2, p3] \<and>
        d \<in> set (json_paths (fs_walk fs dir)) \<and>
        content p2 = content p1 \<and> content p3 = content p1 \<and>
        sha1 (content d) \<noteq> sha1 (content p1)"
  have d: "duplicates (scan_walk fs sha1 (fs_walk fs dir)) = [(p2, p1), (p3, p1)]"
    using a rd by (intro three_and_one[OF dist, of fs content d]) simp_all
  then show "duplicates (scan_walk fs sha1 (fs_walk fs dir)) = [(p2, p1), (p3, p1)]" .
  have l: "scan_log (scan_walk fs sha1 (fs_walk fs dir)) = []"
    using rd by (intro readable_log_empty[of _ fs content]) simp
  show "find_duplicate_transcripts fs sha1 dir =
          [WriteText (ascii ''duplicates.txt'') (report_text [(p2, p1), (p3, p1)]),
           Print [Lit ''Saved duplicate transcripts to '', Str (ascii ''duplicates.txt''), Lit ''.'']]"
    using ex d l by (simp add: find_duplicate_transcripts_def Let_def)
next
  fix x
  assume a: "(\<forall>p\<in>set (json_paths (fs_walk fs dir)). sha1 (content p) = sha1 x \<longrightarrow> content p = x) \<and>
        filter (\<lambda>p. content p = x) (json_paths (fs_walk fs dir)) \<noteq> []"
  have b: "filter (\<lambda>(d, original).
                  d \<in> set (filter (\<lambda>p. content p = x) (json_paths (fs_walk fs dir))) \<or>
                  original \<in> set (filter (\<lambda>p. content p = x) (json_paths (fs_walk fs dir))))
          (duplicates (scan_walk fs sha1 (fs_walk fs dir)))
        = map (\<lambda>p. (p, hd (filter (\<lambda>p. content p = x) (json_paths (fs_walk fs dir)))))
            (tl (filter (\<lambda>p. content p = x) (json_paths (fs_walk fs dir))))"
    using a rd by (intro bucket_pairs[OF dist]) simp_all
  then show "filter (\<lambda>(d, original).
                  d \<in> set (filter (\<lambda>p. content p = x) (json_paths (fs_walk fs dir))) \<or>
                  original \<in> set (filter (\<lambda>p. content p = x) (json_paths (fs_walk fs dir))))
          (duplicates (scan_walk fs sha1 (fs_walk fs dir)))
        = map (\<lambda>p. (p, hd (filter (\<lambda>p. content p = x) (json_paths (fs_walk fs dir)))))
            (tl (filter (\<lambda>p. content p = x) (json_paths (fs_walk fs dir))))" .
  show "length (filter (\<lambda>(d, original).
                  d \<in> set (filter (\<lambda>p. content p = x) (json_paths (fs_walk fs dir))) \<or>
                  original \<in> set (filter (\<lambda>p. content p = x) (json_paths (fs_walk fs dir))))
          (duplicates (scan_walk fs sha1 (fs_walk fs dir))))
        = length (filter (\<lambda>p. content p = x) (json_paths (fs_walk fs dir))) - 1"
    by (simp only: b length_map length_tl)
qed

text \<open>
  C6 on a walk of two directories: three files with the same bytes, one with other
  bytes, and a file that is not a record file.
\<close>

theorem find_duplicates_buckets_witness:
  "find_duplicate_transcripts
     \<lparr>fs_exists = (\<lambda>p. True),
      fs_walk = (\<lambda>p. [(ascii ''t'', [ascii ''a.json'', ascii ''b.json'', ascii ''notes.txt'']),
                      (ascii ''t/sub'', [ascii ''c.json'', ascii ''d.json''])]),
      fs_read = (\<lambda>p. Inr (if p = ascii ''t/sub/c.json'' then [121, 111] else [104, 105]))\<rparr>
     (\<lambda>bytes. bytes) (ascii ''t'')
   = [WriteText (ascii ''duplicates.txt'')
        (report_text [(ascii ''t/b.json'', ascii ''t/a.json''), (ascii ''t/sub/d.json'', ascii ''t/a.json'')]),
      Print [Lit ''Saved duplicate transcripts to '', Str (ascii ''duplicates.txt''), Lit ''.'']]"
proof -
  let ?fs = "\<lparr>fs_exists = (\<lambda>p. True),
      fs_walk = (\<lambda>p. [(ascii ''t'', [ascii ''a.json'', ascii ''b.json'', ascii ''notes.txt'']),
                      (ascii ''t/sub'', [ascii ''c.json'', ascii ''d.json''])]),
      fs_read = (\<lambda>p. Inr (if p = ascii ''t/sub/c.json'' then [121, 111] else [104, 105]))\<rparr>"
  let ?content = "\<lambda>p. if p = ascii ''t/sub/c.json'' then [121, 111] else [104, 105::nat]"
  have ps: "json_paths (fs_walk ?fs (ascii ''t''))
            = [ascii ''t/a.json'', ascii ''t/b.json'', ascii ''t/sub/c.json'', ascii ''t/sub/d.json'']"
    by (simp add: json_paths_def os_path_join_def endswith_def startswith_def ascii_def)
  have e: "fs_exists ?fs (ascii ''t'')" by simp
  have d: "distinct (json_paths (fs_walk ?fs (ascii ''t'')))"
    unfolding ps by (simp add: ascii_def)
  have r: "\<forall>p\<in>set (json_paths (fs_walk ?fs (ascii ''t''))). fs_read ?fs p = Inr (?content p)"
    by simp
  have f: "filter (\<lambda>p. p \<noteq> ascii ''t/sub/c.json'') (json_paths (fs_walk ?fs (ascii ''t'')))
           = [ascii ''t/a.json'', ascii ''t/b.json'', ascii ''t/sub/d.json'']"
    unfolding ps by (simp add: ascii_def)
  have m: "ascii ''t/sub/c.json'' \<in> set (json_paths (fs_walk ?fs (ascii ''t'')))"
    unfolding ps by simp
  have c: "?content (ascii ''t/b.json'') = ?content (ascii ''t/a.json'')"
    "?content (ascii ''t/sub/d.json'') = ?content (ascii ''t/a.json'')"
    "(\<lambda>bytes. bytes) (?content (ascii ''t/sub/c.json'')) \<noteq> (\<lambda>bytes. bytes) (?content (ascii ''t/a.json''))"
    by (simp_all add: ascii_def)
  from find_duplicates_buckets[of ?fs "ascii ''t''" ?content "\<lambda>bytes. bytes", OF e d r,
      THEN conjunct1, rule_format, of "ascii ''t/sub/c.json''" "ascii ''t/a.json''"
        "ascii ''t/b.json''" "ascii ''t/sub/d.json''"] f m c
  show ?thesis by blast
qed

text \<open>
  Claim C1 at a directory with two record files that both fail to open. \<open>compute_sha1\<close>
  logs each failure and returns \<open>None\<close>, and the loop uses \<open>None\<close> as a dictionary key:
  the first file is stored as the original of that key and the second is reported as its
  duplicate.
\<close>

theorem unreadable_files_paired:
  "find_duplicate_transcripts
     \<lparr>fs_exists = (\<lambda>p. True),
      fs_walk = (\<lambda>p. [(ascii ''t'', [ascii ''a.json'', ascii ''b.json''])]),
      fs_read = (\<lambda>p. Inl OSError)\<rparr>
     (\<lambda>bytes. bytes) (ascii ''t'')
   = [LogError [Lit ''Error computing SHA1 for '', Str (ascii ''t/a.json''), Lit '': '', Exc OSError],
      LogError [Lit ''Error computing SHA1 for '', Str (ascii ''t/b.json''), Lit '': '', Exc OSError],
      WriteText (ascii ''duplicates.txt'')
        (ascii ''Duplicate: t/b.json'' @ [10] @ ascii ''Original: t/a.json'' @ [10, 10]),
      Print [Lit ''Saved duplicate transcripts to '', Str (ascii ''duplicates.txt''), Lit ''.'']]"
  by (simp add: find_duplicate_transcripts_def scan_walk_def scan_file_def scan_path_def
      compute_sha1_def report_text_def os_path_join_def endswith_def startswith_def ascii_def Let_def)

section \<open>Properties of process_file_with_video_urls\<close>





section \<open>Properties of fetch_single_video\<close>





lemma fetch_video_metadata_events:
  "\<exists>evs. snd (fetch_video_metadata env video_id t) = t @ evs \<and>
         (\<forall>e\<in>set evs. \<forall>path data. e \<noteq> MakeDirs path \<and> e \<noteq> WriteJson path data)"
  by (auto simp: fetch_video_metadata_def Let_def split: option.splits sum.splits list.splits)

lemma validate_metadata_events:
  "\<exists>evs. snd (validate_metadata env video_id supplied t) = t @ evs \<and>
         (\<forall>e\<in>set evs. \<forall>path data. e \<noteq> MakeDirs path \<and> e \<noteq> WriteJson path data)"
proof -
  have f: "\<exists>evs. snd (fetch_video_metadata env video_id (t @ pre)) = t @ evs \<and>
         (\<forall>e\<in>set evs. \<forall>path data. e \<noteq> MakeDirs path \<and> e \<noteq> WriteJson path data)"
    if "\<forall>e\<in>set pre. \<forall>path data. e \<noteq> MakeDirs path \<and> e \<noteq> WriteJson path data" for pre
  proof -
    from fetch_video_metadata_events[of env video_id "t @ pre"]
    obtain evs where "snd (fetch_video_metadata env video_id (t @ pre)) = (t @ pre) @ evs"
      "\<forall>e\<in>set evs. \<forall>path data. e \<noteq> MakeDirs path \<and> e \<noteq> WriteJson path data" by blast
    with that show ?thesis by (intro exI[of _ "pre @ evs"]) auto
  qed
  show ?thesis
  proof (cases supplied)
    case None
    then show ?thesis using f[of "[]"] by (simp add: validate_metadata_def)
  next
    case (Some given)
    then show ?thesis
      using f[of "[]"] f[of "[Print [Lit ''Incomplete or invalid metadata for video ID '', Str video_id,
                                  Lit ''. Fetching from API.'']]"]
      by (auto simp: validate_metadata_def)
  qed
qed

text \<open>
  Claim C7. Take a call of \<open>fetch_single_video\<close> that reaches the transcript provider:
  the URL holds a video identifier and the metadata resolves to a non-empty dictionary.
  If the provider raises \<open>TranscriptsDisabled\<close>, the call ends with the message
  \<open>Transcripts are disabled for this video.\<close> right after the request: nothing of
  \<open>save_transcript\<close> happens, no directory is made and no record file is written. If the
  provider raises \<open>NoTranscriptFound\<close>, the message is
  \<open>No transcript found for this video.\<close>, and the two messages differ.
\<close>

theorem disabled_transcript_not_saved:
  assumes "search_video_id video_url = Some video_id"
    and "validate_metadata env video_id supplied t = (found, t1)"
    and "found \<noteq> []"
  shows
    "(get_transcript env (t1 @ [CallGetTranscript video_id]) video_id = TranscriptsDisabled \<longrightarrow>
        fetch_single_video env video_url supplied t
          = t1 @ [CallGetTranscript video_id, Print [Lit ''Transcripts are disabled for this video.'']] \<and>
        (\<forall>e\<in>set (drop (length t) (fetch_single_video env video_url supplied t)).
           \<forall>path data. e \<noteq> MakeDirs path \<and> e \<noteq> WriteJson path data)) \<and>
     (get_transcript env (t1 @ [CallGetTranscript video_id]) video_id = NoTranscriptFound \<longrightarrow>
        fetch_single_video env video_url supplied t
          = t1 @ [CallGetTranscript video_id, Print [Lit ''No transcript found for this video.'']]) \<and>
     Print [Lit ''Transcripts are disabled for this video.'']
       \<noteq> Print [Lit ''No transcript found for this video.'']"
proof (intro conjI impI)
  assume d: "get_transcript env (t1 @ [CallGetTranscript video_id]) video_id = TranscriptsDisabled"
  show r: "fetch_single_video env video_url supplied t
          = t1 @ [CallGetTranscript video_id, Print [Lit ''Transcripts are disabled for this video.'']]"
    using assms d by (simp add: fetch_single_video_def Let_def)
  from validate_metadata_events[of env video_id supplied t] assms(2)
  obtain evs where evs: "t1 = t @ evs"
    "\<forall>e\<in>set evs. \<forall>path data. e \<noteq> MakeDirs path \<and> e \<noteq> WriteJson path data" by auto
  show "\<forall>e\<in>set (drop (length t) (fetch_single_video env video_url supplied t)).
           \<forall>path data. e \<noteq> MakeDirs path \<and> e \<noteq> WriteJson path data"
    unfolding r using evs by auto
next
  assume d: "get_transcript env (t1 @ [CallGetTranscript video_id]) video_id = NoTranscriptFound"
  show "fetch_single_video env video_url supplied t
          = t1 @ [CallGetTranscript video_id, Print [Lit ''No transcript found for this video.'']]"
    using assms d by (simp add: fetch_single_video_def Let_def)
next
  show "Print [Lit ''Transcripts are disabled for this video.'']
       \<noteq> Print [Lit ''No transcript found for this video.'']" by simp
qed

text \<open>C7 on the sample environment, with a provider that raises each of the two signals.\<close>

theorem disabled_transcript_not_saved_witness:
  "fetch_single_video (sample_env\<lparr>get_transcript := (\<lambda>t video_id. TranscriptsDisabled)\<rparr>)
     (ascii ''https://www.youtube.com/watch?v=dQw4w9WgXcQ'') None []
   = [CallVideosList (ascii ''dQw4w9WgXcQ''), CallGetTranscript (ascii ''dQw4w9WgXcQ''),
      Print [Lit ''Transcripts are disabled for this video.'']] \<and>
   fetch_single_video (sample_env\<lparr>get_transcript := (\<lambda>t video_id. NoTranscriptFound)\<rparr>)
     (ascii ''https://www.youtube.com/watch?v=dQw4w9WgXcQ'') None []
   = [CallVideosList (ascii ''dQw4w9WgXcQ''), CallGetTranscript (ascii ''dQw4w9WgXcQ''),
      Print [Lit ''No transcript found for this video.'']]"
proof -
  let ?url = "ascii ''https://www.youtube.com/watch?v=dQw4w9WgXcQ''"
  let ?vid = "ascii ''dQw4w9WgXcQ''"
  let ?found = "[(ascii ''title'', PStr (ascii ''A talk: part 1'')),
       (ascii ''channel_title'', PStr (ascii ''Some Channel'')),
       (ascii ''publish_date'', PStr (ascii ''2020-01-02'')),
       (ascii ''duration'', PStr (ascii ''PT1H1M1S'')),
       (ascii ''tags'', PList [PStr (ascii ''talk'')])]"
  have s: "search_video_id ?url = Some ?vid"
    by (simp add: startswith_def id_prefix_def is_id_char_def ascii_alnum_def ascii_def)
  have v: "validate_metadata (sample_env\<lparr>get_transcript := g\<rparr>) ?vid None []
           = (?found, [CallVideosList ?vid])" for g
    by (simp add: validate_metadata_def fetch_video_metadata_def metadata_of_item_def
        bind_err_def subscript_def sample_env_def sample_video_def ascii_def)
  have n: "?found \<noteq> []" by simp
  from disabled_transcript_not_saved[OF s v n, of "\<lambda>t video_id. TranscriptsDisabled",
        THEN conjunct1, THEN mp, THEN conjunct1]
    disabled_transcript_not_saved[OF s v n, of "\<lambda>t video_id. NoTranscriptFound",
        THEN conjunct2, THEN conjunct1, THEN mp]
  show ?thesis by simp
qed

section \<open>Properties of save_transcript\<close>





section \<open>Properties of fetch_channel_videos\<close>

lemma page_video_ids_eq:
  "page_video_ids items t
   = (map (\<lambda>item. the (pi_videoId item)) (filter has_video_id items),
      t @ map (\<lambda>item. Print [Lit ''Skipping invalid item: '', Val (pi_item item)])
            (filter (\<lambda>item. \<not> has_video_id item) items))"
  by (induction items arbitrary: t) simp_all

lemma parse_time_format_int_ok: "\<exists>s. parse_time_format (PInt n) = Inr s"
  by (simp add: parse_time_format_def Let_def)

lemma parse_iso8601_duration_logs:
  "\<exists>n logs. parse_iso8601_duration env raw t = (n, t @ logs) \<and> (\<forall>e\<in>set logs. \<exists>f. e = LogError f)"
  by (cases "isodate_seconds env raw") (simp_all add: parse_iso8601_duration_def)

lemma video_row_ok:
  assumes "vi_id video \<noteq> None"
  shows "\<exists>row logs. video_row env video t = (Inr row, t @ logs) \<and> (\<forall>e\<in>set logs. \<exists>f. e = LogError f)"
proof -
  from parse_iso8601_duration_logs[of env "raw_duration_of video" t]
  obtain n logs where p: "parse_iso8601_duration env (raw_duration_of video) t = (n, t @ logs)"
    "\<forall>e\<in>set logs. \<exists>f. e = LogError f" by blast
  from parse_time_format_int_ok[of n] obtain s where s: "parse_time_format (PInt n) = Inr s" ..
  from assms obtain vid where "vi_id video = Some vid" by auto
  with p s show ?thesis by (simp add: video_row_def Let_def)
qed

lemma video_rows_ok:
  "\<forall>v\<in>set videos. vi_id v \<noteq> None \<Longrightarrow>
   \<exists>rows logs. video_rows env videos t = (Inr rows, t @ logs) \<and> length rows = length videos \<and>
      (\<forall>e\<in>set logs. \<exists>f. e = LogError f)"
proof (induction videos arbitrary: t)
  case Nil
  then show ?case by simp
next
  case (Cons video videos)
  then have "vi_id video \<noteq> None" by simp
  from video_row_ok[OF this, of env t]
  obtain row logs where r: "video_row env video t = (Inr row, t @ logs)"
    "\<forall>e\<in>set logs. \<exists>f. e = LogError f" by blast
  from Cons.IH[of "t @ logs"] Cons.prems
  obtain rows logs' where rs: "video_rows env videos (t @ logs) = (Inr rows, (t @ logs) @ logs')"
    "length rows = length videos" "\<forall>e\<in>set logs'. \<exists>f. e = LogError f" by auto
  have "video_rows env (video # videos) t = (Inr (row # rows), t @ (logs @ logs'))"
    using r rs by simp
  moreover have "\<forall>e\<in>set (logs @ logs'). \<exists>f. e = LogError f" using r rs by auto
  ultimately show ?case using rs(2) by (intro exI[of _ "row # rows"] exI[of _ "logs @ logs'"]) simp
qed

lemma video_row_zero:
  assumes "vi_id video = Some vid" "isodate_seconds env (raw_duration_of video) = Inl e"
  shows "\<exists>row. video_row env video t
           = (Inr row, t @ [LogError [Lit ''Error parsing duration '', Lit [CHR 0x27],
                                     Str (raw_duration_of video), Lit [CHR 0x27], Lit '': '', Exc e]]) \<and>
         length row = 6 \<and> row ! 5 = PStr (ascii ''00:00'')"
proof -
  have "parse_time_format (PInt 0) = Inr (ascii ''00:00'')"
    by (simp add: parse_time_format_def format_02_def dec_digits.simps ascii_def)
  with assms show ?thesis
    by (simp add: video_row_def parse_iso8601_duration_def Let_def)
qed

lemma raw_duration_missing:
  "vi_contentDetails video = None \<or> vi_contentDetails video = Some \<lparr>cd_duration = None\<rparr>
   \<Longrightarrow> raw_duration_of video = ascii ''Unknown''"
  by (auto simp: raw_duration_of_def)

lemma fetch_pages_last:
  assumes "fetch_page env pl tok t = (Inr (rows, token), t')" "token = None \<or> token = Some []"
  shows "fetch_pages env pl videos tok t = Some (Inr (videos @ rows), t')"
  using assms by (subst fetch_pages.simps) auto

lemma video_row_logs:
  "\<exists>res logs. video_row env video t = (res, t @ logs) \<and> (\<forall>e\<in>set logs. \<exists>f. e = LogError f)"
proof -
  from parse_iso8601_duration_logs[of env "raw_duration_of video" t]
  obtain n logs where p: "parse_iso8601_duration env (raw_duration_of video) t = (n, t @ logs)"
    "\<forall>e\<in>set logs. \<exists>f. e = LogError f" by blast
  then show ?thesis
    by (auto simp: video_row_def Let_def split: sum.splits option.splits)
qed

lemma video_rows_logs:
  "\<exists>res logs. video_rows env videos t = (res, t @ logs) \<and> (\<forall>e\<in>set logs. \<exists>f. e = LogError f)"
proof (induction videos arbitrary: t)
  case Nil
  then show ?case by simp
next
  case (Cons video videos)
  from video_row_logs[of env video t]
  obtain res logs where r: "video_row env video t = (res, t @ logs)"
    "\<forall>e\<in>set logs. \<exists>f. e = LogError f" by blast
  show ?case
  proof (cases res)
    case (Inl e)
    with r show ?thesis by auto
  next
    case (Inr row)
    from Cons.IH[of "t @ logs"]
    obtain res' logs' where rs: "video_rows env videos (t @ logs) = (res', (t @ logs) @ logs')"
      "\<forall>e\<in>set logs'. \<exists>f. e = LogError f" by blast
    have "\<forall>e\<in>set (logs @ logs'). \<exists>f. e = LogError f" using r rs by auto
    moreover have "\<exists>res''. video_rows env (video # videos) t = (res'', t @ (logs @ logs'))"
      using r rs Inr by (cases res') auto
    ultimately show ?thesis by blast
  qed
qed

lemma fetch_pages_raised:
  "fetch_page env pl tok t = (Inl e, t') \<Longrightarrow> fetch_pages env pl videos tok t = Some (Inl e, t')"
  by (subst fetch_pages.simps) simp

lemma fetch_page_events:
  assumes "playlist_items env (t @ [CallPlaylistItems pl tok]) pl tok = Inr page"
  shows "\<exists>res evs. fetch_page env pl tok t = (res, t @ CallPlaylistItems pl tok # evs) \<and>
           (\<forall>e\<in>set evs. \<forall>p k. e \<noteq> CallPlaylistItems p k) \<and>
           (\<forall>rows token. res = Inr (rows, token) \<longrightarrow> token = pg_nextPageToken page)"
proof -
  let ?skips = "map (\<lambda>item. Print [Lit ''Skipping invalid item: '', Val (pi_item item)])
                  (filter (\<lambda>item. \<not> has_video_id item) (page_items page))"
  let ?ids = "map (\<lambda>item. the (pi_videoId item)) (filter has_video_id (page_items page))"
  let ?t2 = "t @ CallPlaylistItems pl tok # ?skips"
  let ?t3 = "?t2 @ [CallVideosList (join_comma ?ids)]"
  have ids: "page_video_ids (page_items page) (t @ [CallPlaylistItems pl tok]) = (?ids, ?t2)"
    by (simp add: page_video_ids_eq)
  have sk: "\<forall>e\<in>set ?skips. \<forall>p k. e \<noteq> CallPlaylistItems p k" by auto
  show ?thesis
  proof (cases "?ids = []")
    case True
    then have "fetch_page env pl tok t = (Inr ([], pg_nextPageToken page), ?t2)"
      using assms ids by (simp add: fetch_page_def Let_def)
    with sk show ?thesis by blast
  next
    case False
    show ?thesis
    proof (cases "videos_list env ?t3 (join_comma ?ids)")
      case (Inl e)
      then have "fetch_page env pl tok t = (Inl e, t @ CallPlaylistItems pl tok # (?skips @ [CallVideosList (join_comma ?ids)]))"
        using assms ids False by (simp add: fetch_page_def Let_def)
      moreover have "\<forall>e\<in>set (?skips @ [CallVideosList (join_comma ?ids)]). \<forall>p k. e \<noteq> CallPlaylistItems p k"
        by auto
      ultimately show ?thesis by blast
    next
      case (Inr response)
      from video_rows_logs[of env "response_items response" ?t3]
      obtain res logs where r: "video_rows env (response_items response) ?t3 = (res, ?t3 @ logs)"
        "\<forall>e\<in>set logs. \<exists>f. e = LogError f" by blast
      have ev: "\<forall>e\<in>set (?skips @ CallVideosList (join_comma ?ids) # logs). \<forall>p k. e \<noteq> CallPlaylistItems p k"
        using r(2) by auto
      have "\<exists>res'. fetch_page env pl tok t
              = (res', t @ CallPlaylistItems pl tok # (?skips @ CallVideosList (join_comma ?ids) # logs)) \<and>
            (\<forall>rows token. res' = Inr (rows, token) \<longrightarrow> token = pg_nextPageToken page)"
        using assms ids False Inr r(1) by (cases res) (simp_all add: fetch_page_def Let_def)
      with ev show ?thesis by blast
    qed
  qed
qed

lemma fetch_pages_one_page:
  assumes "playlist_items env (t @ [CallPlaylistItems pl None]) pl None = Inr page"
    and "pg_nextPageToken page = None \<or> pg_nextPageToken page = Some []"
  shows "\<exists>res evs. fetch_pages env pl [] None t = Some (res, t @ CallPlaylistItems pl None # evs) \<and>
           (\<forall>e\<in>set evs. \<forall>p k. e \<noteq> CallPlaylistItems p k)"
proof -
  from fetch_page_events[OF assms(1)]
  obtain res evs where f: "fetch_page env pl None t = (res, t @ CallPlaylistItems pl None # evs)"
    "\<forall>e\<in>set evs. \<forall>p k. e \<noteq> CallPlaylistItems p k"
    "\<forall>rows token. res = Inr (rows, token) \<longrightarrow> token = pg_nextPageToken page" by blast
  show ?thesis
  proof (cases res)
    case (Inl e)
    with f(1) fetch_pages_raised[of env pl None t e _ "[]"] f(2) show ?thesis by blast
  next
    case (Inr pr)
    obtain rows token where pr: "pr = (rows, token)" by (cases pr)
    with Inr f(3) have "token = None \<or> token = Some []" using assms(2) by auto
    from fetch_pages_last[OF _ this, of env pl None t rows _ "[]"] f(1) Inr pr
    have "fetch_pages env pl [] None t = Some (Inr rows, t @ CallPlaylistItems pl None # evs)"
      by simp
    with f(2) show ?thesis by blast
  qed
qed

text \<open>
  Claim C9, as the code has it. The loop of \<open>fetch_channel_videos\<close> starts with no rows
  and no token. When the first page of the playlist carries no continuation token, the
  loop ends after that page, whatever the page holds: it returns, and exactly one request
  for a page is among its events. The items of the page without
  an identifier are skipped, each with a printed message. If no item has an identifier,
  no row is collected and the metadata provider is not asked. Otherwise one batch request
  is made for the identifiers of the page, and, if it answers and each item of the answer
  has its \<open>id\<close>, one row is collected for each item of the answer: the number of rows is
  the number of items the provider returns, which is the number of identifiers only when
  the provider returns one item for each. For every item, a duration that does not parse
  is logged and counts as zero seconds, displayed \<open>00:00\<close>, and the item keeps its row;
  a missing duration is the string \<open>Unknown\<close>, which is parsed like any other.
\<close>

theorem single_page_enumeration:
  assumes page: "playlist_items env (t @ [CallPlaylistItems pl None]) pl None = Inr page"
    and no_token: "pg_nextPageToken page = None \<or> pg_nextPageToken page = Some []"
  shows
    "(\<exists>res evs.
        fetch_pages env pl [] None t = Some (res, t @ CallPlaylistItems pl None # evs) \<and>
        (\<forall>e\<in>set evs. \<forall>p k. e \<noteq> CallPlaylistItems p k)) \<and>
     (filter has_video_id (page_items page) = [] \<longrightarrow>
        fetch_pages env pl [] None t
          = Some (Inr [],
              t @ CallPlaylistItems pl None #
                map (\<lambda>item. Print [Lit ''Skipping invalid item: '', Val (pi_item item)])
                  (filter (\<lambda>item. \<not> has_video_id item) (page_items page)))) \<and>
     (\<forall>response.
        filter has_video_id (page_items page) \<noteq> [] \<and>
        videos_list env
          (t @ CallPlaylistItems pl None #
             map (\<lambda>item. Print [Lit ''Skipping invalid item: '', Val (pi_item item)])
               (filter (\<lambda>item. \<not> has_video_id item) (page_items page)) @
             [CallVideosList (join_comma (map (\<lambda>item. the (pi_videoId item))
                                (filter has_video_id (page_items page))))])
          (join_comma (map (\<lambda>item. the (pi_videoId item)) (filter has_video_id (page_items page))))
          = Inr response \<and>
        (\<forall>video\<in>set (response_items response). vi_id video \<noteq> None) \<longrightarrow>
        (\<exists>rows logs.
           fetch_pages env pl [] None t
             = Some (Inr rows,
                 t @ CallPlaylistItems pl None #
                   map (\<lambda>item. Print [Lit ''Skipping invalid item: '', Val (pi_item item)])
                     (filter (\<lambda>item. \<not> has_video_id item) (page_items page)) @
                   CallVideosList (join_comma (map (\<lambda>item. the (pi_videoId item))
                                      (filter has_video_id (page_items page)))) # logs) \<and>
           length rows = length (response_items response) \<and>
           (\<forall>e\<in>set logs. \<exists>f. e = LogError f))) \<and>
     (\<forall>video vid e t'.
        vi_id video = Some vid \<and> isodate_seconds env (raw_duration_of video) = Inl e \<longrightarrow>
        (\<exists>row. video_row env video t'
                 = (Inr row, t' @ [LogError [Lit ''Error parsing duration '', Lit [CHR 0x27],
                                             Str (raw_duration_of video), Lit [CHR 0x27], Lit '': '',
                                             Exc e]]) \<and>
               length row = 6 \<and> row ! 5 = PStr (ascii ''00:00''))) \<and>
     (\<forall>video.
        vi_contentDetails video = None \<or> vi_contentDetails video = Some \<lparr>cd_duration = None\<rparr> \<longrightarrow>
        raw_duration_of video = ascii ''Unknown'')"
proof (intro conjI allI impI)
  let ?skips = "map (\<lambda>item. Print [Lit ''Skipping invalid item: '', Val (pi_item item)])
                  (filter (\<lambda>item. \<not> has_video_id item) (page_items page))"
  let ?ids = "map (\<lambda>item. the (pi_videoId item)) (filter has_video_id (page_items page))"
  let ?t2 = "t @ CallPlaylistItems pl None # ?skips"
  have ids: "page_video_ids (page_items page) (t @ [CallPlaylistItems pl None]) = (?ids, ?t2)"
    by (simp add: page_video_ids_eq)
  show "\<exists>res evs.
        fetch_pages env pl [] None t = Some (res, t @ CallPlaylistItems pl None # evs) \<and>
        (\<forall>e\<in>set evs. \<forall>p k. e \<noteq> CallPlaylistItems p k)"
    using fetch_pages_one_page[OF page no_token] .
  {
    assume e: "filter has_video_id (page_items page) = []"
    have "fetch_page env pl None t = (Inr ([], pg_nextPageToken page), ?t2)"
      using page ids e by (simp add: fetch_page_def Let_def)
    from fetch_pages_last[OF this no_token, of "[]"]
    show "fetch_pages env pl [] None t = Some (Inr [], ?t2)" by simp
  }
  {
    fix response
    assume a: "filter has_video_id (page_items page) \<noteq> [] \<and>
        videos_list env (t @ CallPlaylistItems pl None # ?skips @ [CallVideosList (join_comma ?ids)])
          (join_comma ?ids) = Inr response \<and>
        (\<forall>video\<in>set (response_items response). vi_id video \<noteq> None)"
    from video_rows_ok[of "response_items response" env "?t2 @ [CallVideosList (join_comma ?ids)]"] a
    obtain rows logs where r:
      "video_rows env (response_items response) (?t2 @ [CallVideosList (join_comma ?ids)])
         = (Inr rows, (?t2 @ [CallVideosList (join_comma ?ids)]) @ logs)"
      "length rows = length (response_items response)"
      "\<forall>e\<in>set logs. \<exists>f. e = LogError f" by blast
    have "fetch_page env pl None t
          = (Inr (rows, pg_nextPageToken page), (?t2 @ [CallVideosList (join_comma ?ids)]) @ logs)"
      using page ids a r(1) by (simp add: fetch_page_def Let_def)
    from fetch_pages_last[OF this no_token, of "[]"]
    have "fetch_pages env pl [] None t
          = Some (Inr rows, ?t2 @ CallVideosList (join_comma ?ids) # logs)" by simp
    with r(2,3)
    show "\<exists>rows logs.
           fetch_pages env pl [] None t
             = Some (Inr rows, t @ CallPlaylistItems pl None # ?skips @
                   CallVideosList (join_comma ?ids) # logs) \<and>
           length rows = length (response_items response) \<and>
           (\<forall>e\<in>set logs. \<exists>f. e = LogError f)" by auto
  }
  {
    fix video :: video_item and vid e t'
    assume "vi_id video = Some vid \<and> isodate_seconds env (raw_duration_of video) = Inl e"
    then show "\<exists>row. video_row env video t'
                 = (Inr row, t' @ [LogError [Lit ''Error parsing duration '', Lit [CHR 0x27],
                                             Str (raw_duration_of video), Lit [CHR 0x27], Lit '': '',
                                             Exc e]]) \<and>
               length row = 6 \<and> row ! 5 = PStr (ascii ''00:00'')"
      using video_row_zero by blast
  }
  {
    fix video :: video_item
    assume "vi_contentDetails video = None \<or> vi_contentDetails video = Some \<lparr>cd_duration = None\<rparr>"
    then show "raw_duration_of video = ascii ''Unknown''" by (rule raw_duration_missing)
  }
qed

text \<open>
  C9 on the sample environment: a page of two items, one without identifier, and a video
  without \<open>contentDetails\<close>.
\<close>

theorem single_page_enumeration_witness:
  "(\<exists>rows logs.
      fetch_pages sample_env (ascii ''UU0123456789'') [] None []
        = Some (Inr rows,
            [CallPlaylistItems (ascii ''UU0123456789'') None,
             Print [Lit ''Skipping invalid item: '', Val (PDict [])],
             CallVideosList (ascii ''dQw4w9WgXcQ'')] @ logs) \<and>
      length rows = 1) \<and>
   (\<exists>row. video_row sample_env (sample_video\<lparr>vi_contentDetails := None\<rparr>) []
            = (Inr row, [LogError [Lit ''Error parsing duration '', Lit [CHR 0x27],
                                   Str (ascii ''Unknown''), Lit [CHR 0x27], Lit '': '',
                                   Exc ValueError]]) \<and>
          row ! 5 = PStr (ascii ''00:00''))"
proof -
  let ?pl = "ascii ''UU0123456789''"
  let ?page = "\<lparr>pg_items = Some [\<lparr>pi_item = PDict [], pi_videoId = None\<rparr>,
                                \<lparr>pi_item = PDict [], pi_videoId = Some (ascii ''dQw4w9WgXcQ'')\<rparr>],
              pg_nextPageToken = None\<rparr>"
  let ?video = "sample_video\<lparr>vi_contentDetails := None\<rparr>"
  have p: "playlist_items sample_env ([] @ [CallPlaylistItems ?pl None]) ?pl None = Inr ?page"
    by (simp add: sample_env_def)
  have n: "pg_nextPageToken ?page = None \<or> pg_nextPageToken ?page = Some []" by simp
  note th = single_page_enumeration[OF p n, THEN conjunct2]
  have f: "filter has_video_id (page_items ?page)
           = [\<lparr>pi_item = PDict [], pi_videoId = Some (ascii ''dQw4w9WgXcQ'')\<rparr>]"
    "filter (\<lambda>item. \<not> has_video_id item) (page_items ?page)
           = [\<lparr>pi_item = PDict [], pi_videoId = None\<rparr>]"
    by (simp_all add: page_items_def has_video_id_def ascii_def)
  have v: "videos_list sample_env tr ids = Inr (Some [sample_video])" for tr ids
    by (simp add: sample_env_def)
  have i: "\<forall>video\<in>set (response_items (Some [sample_video])). vi_id video \<noteq> None"
    by (simp add: response_items_def sample_video_def)
  have a: "\<exists>rows logs.
      fetch_pages sample_env ?pl [] None []
        = Some (Inr rows,
            [CallPlaylistItems ?pl None,
             Print [Lit ''Skipping invalid item: '', Val (PDict [])],
             CallVideosList (ascii ''dQw4w9WgXcQ'')] @ logs) \<and>
      length rows = 1"
    using th[THEN conjunct2, THEN conjunct1, THEN spec, of "Some [sample_video]"] v i
    unfolding f by (simp add: response_items_def) blast
  have r: "raw_duration_of ?video = ascii ''Unknown''"
    using th[THEN conjunct2, THEN conjunct2, THEN conjunct2, THEN spec, of ?video] by simp
  have "vi_id ?video = Some (ascii ''dQw4w9WgXcQ'') \<and>
        isodate_seconds sample_env (raw_duration_of ?video) = Inl ValueError"
    unfolding r by (simp add: sample_env_def sample_video_def ascii_def)
  from th[THEN conjunct2, THEN conjunct2, THEN conjunct1, THEN spec, THEN spec, THEN spec, THEN spec,
      THEN mp, OF this, of "[]"]
  have b: "\<exists>row. video_row sample_env ?video []
            = (Inr row, [LogError [Lit ''Error parsing duration '', Lit [CHR 0x27],
                                   Str (ascii ''Unknown''), Lit [CHR 0x27], Lit '': '',
                                   Exc ValueError]]) \<and>
          row ! 5 = PStr (ascii ''00:00'')"
    unfolding r by auto
  from a b show ?thesis by blast
qed

text \<open>
  C9 as written fails when the metadata provider returns no item for an identifier (a
  private or deleted video): the page has one item with an identifier, and no row is
  collected.
\<close>

theorem rows_follow_the_videos_response:
  "playlist_items (sample_env\<lparr>videos_list := (\<lambda>t ids. Inr (Some []))\<rparr>)
      [CallPlaylistItems (ascii ''UU0123456789'') None] (ascii ''UU0123456789'') None
     = Inr \<lparr>pg_items = Some [\<lparr>pi_item = PDict [], pi_videoId = None\<rparr>,
                               \<lparr>pi_item = PDict [], pi_videoId = Some (ascii ''dQw4w9WgXcQ'')\<rparr>],
             pg_nextPageToken = None\<rparr> \<and>
   length (filter has_video_id
             [\<lparr>pi_item = PDict [], pi_videoId = None\<rparr>,
              \<lparr>pi_item = PDict [], pi_videoId = Some (ascii ''dQw4w9WgXcQ'')\<rparr>]) = 1 \<and>
   fetch_pages (sample_env\<lparr>videos_list := (\<lambda>t ids. Inr (Some []))\<rparr>)
      (ascii ''UU0123456789'') [] None []
     = Some (Inr [],
         [CallPlaylistItems (ascii ''UU0123456789'') None,
          Print [Lit ''Skipping invalid item: '', Val (PDict [])],
          CallVideosList (ascii ''dQw4w9WgXcQ'')])"
proof -
  have a: "fetch_page (sample_env\<lparr>videos_list := (\<lambda>t ids. Inr (Some []))\<rparr>)
      (ascii ''UU0123456789'') None []
     = (Inr ([], None),
         [CallPlaylistItems (ascii ''UU0123456789'') None,
          Print [Lit ''Skipping invalid item: '', Val (PDict [])],
          CallVideosList (ascii ''dQw4w9WgXcQ'')])"
    by (simp add: fetch_page_def page_items_def response_items_def has_video_id_def
        sample_env_def Let_def ascii_def)
  have b: "fetch_pages (sample_env\<lparr>videos_list := (\<lambda>t ids. Inr (Some []))\<rparr>)
      (ascii ''UU0123456789'') [] None []
     = Some (Inr [],
         [CallPlaylistItems (ascii ''UU0123456789'') None,
          Print [Lit ''Skipping invalid item: '', Val (PDict [])],
          CallVideosList (ascii ''dQw4w9WgXcQ'')])"
    using fetch_pages_last[OF a, of "[]"] by simp
  show ?thesis unfolding b by (simp add: sample_env_def has_video_id_def ascii_def)
qed

end
